theory Spec2Isabelle
  imports Complex_Main "HOL-Library.Word" "HOL-Library.AList" "HOL-Library.Log_Nat"
begin

section \<open>Data model of \<open>QA/visual_qa.py\<close>\<close>

text \<open>
  The comparison engine of \<open>visual_qa.py\<close> is \<open>pixel_diff\<close>, \<open>compare_screens\<close> and
  \<open>generate_markdown_report\<close>. Everything they take from outside the file is an explicit
  input here: the file system they read, the image decoder and the Lanczos resampler of
  Pillow, the MD5 digest, the two readings of the clock and whether Pillow and numpy can be
  imported.

  What the run writes is returned as a list of writes, in order, next to the value the
  function returns; console output and the creation of the reports directory are left
  out. A dictionary with fixed keys is a record, the dictionary \<open>results\<close> an association
  list in insertion order.

  Numbers. The samples of an RGBA image are 8-bit words. The \<open>float32\<close> arrays hold
  integers between 0 and 1020 only, which \<open>float32\<close> represents exactly, so they are
  modelled as \<open>int\<close>. Inside \<open>pixel_diff\<close> the \<open>float64\<close> statistics
  (\<open>diff_percent\<close>, the means, the rounded values) are modelled as the exact rationals
  they approximate, and \<open>round(x, 2)\<close> as rounding half to even at the second decimal.
  Where the rounding error of \<open>float64\<close> itself matters, for the sum of the two reported
  percentages, lines 187, 214 and 218 are modelled a second time in IEEE double arithmetic
  (\<open>percent_f64\<close>, \<open>diff_percent_f64\<close>, \<open>match_score_f64\<close>).
\<close>

type_synonym sample = "8 word"

type_synonym pixel = "sample \<times> sample \<times> sample \<times> sample"

text \<open>A decoded image: Pillow's \<open>size\<close> is (width, height); the rows are what
  \<open>np.array(img)\<close> lays out with shape (height, width, 4).\<close>

record image =
  isize :: "nat \<times> nat"
  pixels :: "pixel list list"

definition wf_image :: "image \<Rightarrow> bool" where
  "wf_image img \<longleftrightarrow>
     0 < fst (isize img) \<and> 0 < snd (isize img) \<and>
     length (pixels img) = snd (isize img) \<and>
     list_all (\<lambda>row. length row = fst (isize img)) (pixels img)"

datatype error = FileNotFoundError | UnidentifiedImageError | ValueError

record region =
  y_start :: int
  y_end :: int
  x_start :: int
  x_end :: int
  area_percent :: rat

text \<open>The dictionary \<open>pixel_diff\<close> returns, with its keys as fields.\<close>

record diff_result =
  mean_diff :: rat
  max_diff :: rat
  diff_percent :: rat
  diff_image :: string
  resolution :: "nat list"
  regions :: "region list"
  match_score :: rat

text \<open>\<open>pixel_diff\<close> returns either that dictionary or \<open>{"error": ...}\<close>.\<close>

datatype diff_dict = Stats diff_result | ErrorDict string

text \<open>A value of \<open>results\<close>: \<open>{"status": s}\<close>, or the dictionary of \<open>pixel_diff\<close>
  extended with the two paths and the two fingerprints.\<close>

record compared =
  diff :: diff_dict
  unity_path :: string
  figma_path :: string
  unity_hash :: string
  figma_hash :: string

datatype screen_record = Status string | Compared compared

record summary =
  total_n :: nat
  passing :: nat
  warning :: nat
  failing :: nat
  missing :: nat

record report =
  timestamp :: string
  screens :: "(string \<times> screen_record) list"
  summary :: summary

text \<open>The three glyphs of the classification: check mark, yellow circle, red circle.\<close>

datatype glyph = CheckMark | YellowCircle | RedCircle

text \<open>One line of the markdown report. The lines built by an f-string are kept as
  their interpolated values: the \<open>Generated\<close> line, the line of counts, a row of a
  screen that has a status and a row of a compared screen. The arrows in the fixed lines
  of guidance are written \<open>->\<close>.\<close>

datatype md_line =
    Literal string
  | Generated string
  | ScreensLine nat nat nat nat
  | StatusRow string string
  | ScoreRow string rat rat glyph

text \<open>What the run writes: a diff image, the JSON dump of a report, the markdown text.\<close>

datatype content =
    PngImage "sample list list list"
  | JsonText report
  | MarkdownText "md_line list"

type_synonym file_write = "string \<times> content"

text \<open>The world outside the file. \<open>files\<close> maps a path to the bytes of the file there;
  \<open>decode\<close> is \<open>Image.open(...).convert("RGBA")\<close> on those bytes (\<open>None\<close>: Pillow
  raises); \<open>lanczos\<close> gives the rows of \<open>img.resize(target, Image.LANCZOS)\<close>;
  \<open>now_isoformat\<close> and \<open>now_strftime\<close> are the two readings of \<open>datetime.now()\<close>.\<close>

record env =
  files :: "string \<Rightarrow> string option"
  decode :: "string \<Rightarrow> image option"
  lanczos :: "nat \<times> nat \<Rightarrow> image \<Rightarrow> pixel list list"
  md5_hexdigest :: "string \<Rightarrow> string"
  now_isoformat :: string
  now_strftime :: string
  libs_installed :: bool

section \<open>Configuration and paths\<close>

definition SCREEN_MAP :: "(string \<times> string \<times> string) list" where
  "SCREEN_MAP =
     [(''LogoScreen'', ''Logo'', ''2622:843''),
      (''SplashScreen'', ''Splash Screen'', ''2032:327''),
      (''LoadingScreen'', ''Loading'', ''4096:1181'')]"

text \<open>\<open>Path.__truediv__\<close>: an absolute right operand replaces the left one. The
  normalisation of \<open>//\<close> and \<open>/./\<close> inside a name is not modelled.\<close>

definition path_join :: "string \<Rightarrow> string \<Rightarrow> string" where
  "path_join dir name =
     (case name of
        [] \<Rightarrow> dir
      | c # cs \<Rightarrow> if c = CHR ''/'' then name else dir @ ''/'' @ name)"

definition QA_DIR :: string where
  "QA_DIR = ''QA''"

definition FIGMA_DIR :: string where
  "FIGMA_DIR = path_join (path_join QA_DIR ''Screenshots'') ''Figma''"

definition UNITY_DIR :: string where
  "UNITY_DIR = path_join (path_join QA_DIR ''Screenshots'') ''Unity''"

definition REPORTS_DIR :: string where
  "REPORTS_DIR = path_join QA_DIR ''Reports''"

text \<open>\<open>Path(p).stem\<close>: the last component without its last suffix; a name that starts
  with its only dot, or ends with a dot, has no suffix.\<close>

definition basename :: "string \<Rightarrow> string" where
  "basename p = rev (takeWhile (\<lambda>c. c \<noteq> CHR ''/'') (rev p))"

definition stem :: "string \<Rightarrow> string" where
  "stem p =
     (let name = basename p;
          ext = takeWhile (\<lambda>c. c \<noteq> CHR ''.'') (rev name)
      in if CHR ''.'' \<in> set name \<and> ext \<noteq> [] \<and> length ext + 1 < length name
         then take (length name - length ext - 1) name
         else name)"

section \<open>Rounding\<close>

text \<open>\<open>round(x, 2)\<close>: the nearest multiple of 0.01, a tie going to the even one.\<close>

definition rint :: "rat \<Rightarrow> int" where
  "rint x =
     (let f = \<lfloor>x\<rfloor>; d = x - of_int f
      in if d < 1 / 2 then f
         else if 1 / 2 < d then f + 1
         else if even f then f else f + 1)"

definition round2 :: "rat \<Rightarrow> rat" where
  "round2 x = of_int (rint (x * 100)) / 100"

section \<open>Lines 187, 214 and 218 in \<open>float64\<close>\<close>

text \<open>A \<open>float64\<close> is a rational with a significand of 53 bits. \<open>ilog2 x\<close> is the
  binary exponent of a positive \<open>x\<close>, the integer \<open>e\<close> with
  \<open>2 ^ e \<le> x < 2 ^ (e + 1)\<close>, and \<open>fl x\<close> is the \<open>float64\<close> nearest to \<open>x\<close>, a tie
  going to the even significand. The range of the exponent is not modelled: the values of
  these lines lie between \<open>2 ^ -63\<close> and \<open>2 ^ 14\<close>.\<close>

definition ilog2 :: "rat \<Rightarrow> int" where
  "ilog2 x =
     (case quotient_of x of
        (p, q) \<Rightarrow> let e = bitlen p - bitlen q in if 2 powi e \<le> x then e else e - 1)"

definition fl :: "rat \<Rightarrow> rat" where
  "fl x = (if x = 0 then 0
           else let u = 2 powi (ilog2 \<bar>x\<bar> - 52) in of_int (rint (x / u)) * u)"

text \<open>The arithmetic of \<open>float64\<close>: the exact result, rounded.\<close>

definition f64_div :: "rat \<Rightarrow> rat \<Rightarrow> rat" where
  "f64_div a b = fl (a / b)"

definition f64_mul :: "rat \<Rightarrow> rat \<Rightarrow> rat" where
  "f64_mul a b = fl (a * b)"

definition f64_sub :: "rat \<Rightarrow> rat \<Rightarrow> rat" where
  "f64_sub a b = fl (a - b)"

definition f64_add :: "rat \<Rightarrow> rat \<Rightarrow> rat" where
  "f64_add a b = fl (a + b)"

text \<open>\<open>round(x, 2)\<close> on a \<open>numpy.float64\<close> is numpy's rounding:
  \<open>rint(x * 100) / 100\<close>, both operations in \<open>float64\<close>.\<close>

definition np_round2 :: "rat \<Rightarrow> rat" where
  "np_round2 x = f64_div (of_int (rint (f64_mul x 100))) 100"

section \<open>Image normalisation (lines 168--173)\<close>

text \<open>Python's \<open>max\<close> of two tuples: the second wins only if it is greater in the
  lexicographic order, first components first.\<close>

definition tuple_max :: "nat \<times> nat \<Rightarrow> nat \<times> nat \<Rightarrow> nat \<times> nat" where
  "tuple_max s1 s2 =
     (if fst s1 < fst s2 \<or> (fst s1 = fst s2 \<and> snd s1 < snd s2) then s2 else s1)"

definition resize :: "(nat \<times> nat \<Rightarrow> image \<Rightarrow> pixel list list) \<Rightarrow> nat \<times> nat \<Rightarrow> image \<Rightarrow> image" where
  "resize resample target img = \<lparr>isize = target, pixels = resample target img\<rparr>"

definition normalize_pair ::
  "(nat \<times> nat \<Rightarrow> image \<Rightarrow> pixel list list) \<Rightarrow> image \<Rightarrow> image \<Rightarrow> image \<times> image" where
  "normalize_pair resample img1 img2 =
     (if isize img1 \<noteq> isize img2
      then let target = tuple_max (isize img1) (isize img2)
           in (resize resample target img1, resize resample target img2)
      else (img1, img2))"

section \<open>The numpy operations of \<open>pixel_diff\<close>\<close>

definition channels :: "pixel \<Rightarrow> int list" where
  "channels p = (case p of (r, g, b, a) \<Rightarrow> [uint r, uint g, uint b, uint a])"

text \<open>\<open>np.array(img, dtype=np.float32)\<close>.\<close>

definition np_array :: "image \<Rightarrow> int list list list" where
  "np_array img = map (map channels) (pixels img)"

text \<open>\<open>np.abs(arr1 - arr2)\<close> on two arrays of one shape.\<close>

definition np_abs_diff :: "int list list list \<Rightarrow> int list list list \<Rightarrow> int list list list" where
  "np_abs_diff arr1 arr2 = map2 (map2 (map2 (\<lambda>x y. \<bar>x - y\<bar>))) arr1 arr2"

definition flatten :: "int list list list \<Rightarrow> int list" where
  "flatten d = concat (concat d)"

text \<open>\<open>diff.mean()\<close> and \<open>diff.max()\<close> over the whole array.\<close>

definition np_mean :: "int list \<Rightarrow> rat" where
  "np_mean xs = of_int (sum_list xs) / of_nat (length xs)"

definition np_max :: "int list \<Rightarrow> int" where
  "np_max xs = Max (set xs)"

text \<open>\<open>diff.mean(axis=2) > threshold\<close>, with \<open>threshold = 30\<close>.\<close>

definition threshold :: rat where
  "threshold = 30"

definition diff_mask :: "int list list list \<Rightarrow> bool list list" where
  "diff_mask d = map (map (\<lambda>px. threshold < np_mean px)) d"

text \<open>\<open>diff_mask.sum()\<close> and \<open>diff_mask.size\<close>.\<close>

definition mask_sum :: "bool list list \<Rightarrow> nat" where
  "mask_sum m = length (filter (\<lambda>b. b) (concat m))"

definition mask_size :: "bool list list \<Rightarrow> nat" where
  "mask_size m = length (concat m)"

text \<open>\<open>(diff_mask.sum() / diff_mask.size) * 100\<close>, before any rounding.\<close>

definition percent :: "bool list list \<Rightarrow> rat" where
  "percent m = of_nat (mask_sum m) / of_nat (mask_size m) * 100"

text \<open>The same line 187 in \<open>float64\<close>: \<open>diff_mask.sum()\<close> and
  \<open>diff_mask.size\<close> are integers, which below \<open>2 ^ 53\<close> convert to \<open>float64\<close>
  without error; the quotient is rounded, and so is its product with 100. Then line 214,
  \<open>round(diff_percent, 2)\<close>, and line 218, \<open>round(100 - diff_percent, 2)\<close>.\<close>

definition percent_f64 :: "bool list list \<Rightarrow> rat" where
  "percent_f64 m = f64_mul (f64_div (of_nat (mask_sum m)) (of_nat (mask_size m))) 100"

definition diff_percent_f64 :: "bool list list \<Rightarrow> rat" where
  "diff_percent_f64 m = np_round2 (percent_f64 m)"

definition match_score_f64 :: "bool list list \<Rightarrow> rat" where
  "match_score_f64 m = np_round2 (f64_sub 100 (percent_f64 m))"

text \<open>\<open>np.uint8(np.clip(diff * 3, 0, 255))\<close>.\<close>

definition amplify :: "int list list list \<Rightarrow> sample list list list" where
  "amplify d = map (map (map (\<lambda>x. word_of_int (min 255 (max 0 (x * 3)))))) d"

text \<open>\<open>.any()\<close>, \<open>.any(axis=1)\<close>, \<open>.any(axis=0)\<close> and \<open>np.argmax\<close> on booleans.
  The number of columns is that of the first row: the mask is rectangular. \<open>np.argmax\<close>
  gives the first index of \<open>True\<close>, and 0 when there is none; it is only called behind
  \<open>row_diff.any()\<close>, on arrays that are not empty.\<close>

definition np_any :: "bool list \<Rightarrow> bool" where
  "np_any xs \<longleftrightarrow> True \<in> set xs"

definition ncols :: "bool list list \<Rightarrow> nat" where
  "ncols m = (case m of [] \<Rightarrow> 0 | row # _ \<Rightarrow> length row)"

definition any_axis1 :: "bool list list \<Rightarrow> bool list" where
  "any_axis1 m = map np_any m"

definition any_axis0 :: "bool list list \<Rightarrow> bool list" where
  "any_axis0 m = map (\<lambda>j. np_any (map (\<lambda>row. row ! j) m)) [0..<ncols m]"

definition np_argmax :: "bool list \<Rightarrow> nat" where
  "np_argmax xs = (if np_any xs then length (takeWhile Not xs) else 0)"

section \<open>Region detection (lines 194--209)\<close>

definition find_regions :: "bool list list \<Rightarrow> rat \<Rightarrow> region list" where
  "find_regions m dp =
     (if 1 / 2 < dp
      then let row_diff = any_axis1 m; col_diff = any_axis0 m
           in if np_any row_diff
              then [\<lparr>y_start = int (np_argmax row_diff),
                     y_end = int (length row_diff) - int (np_argmax (rev row_diff)),
                     x_start = int (np_argmax col_diff),
                     x_end = int (length col_diff) - int (np_argmax (rev col_diff)),
                     area_percent = round2 dp\<rparr>]
              else []
      else [])"

section \<open>\<open>pixel_diff\<close>\<close>

definition open_rgba :: "env \<Rightarrow> string \<Rightarrow> error + image" where
  "open_rgba e p =
     (case files e p of
        None \<Rightarrow> Inl FileNotFoundError
      | Some bytes \<Rightarrow>
          (case decode e bytes of
             None \<Rightarrow> Inl UnidentifiedImageError
           | Some img \<Rightarrow> Inr img))"

text \<open>Lines 175--219, on the two normalised images. \<open>diff.max()\<close> raises
  \<open>ValueError\<close> on an array without elements. The second component is the write of the
  diff image.\<close>

definition diff_stats :: "string \<Rightarrow> image \<Rightarrow> image \<Rightarrow> error + (diff_result \<times> file_write list)" where
  "diff_stats img1_path img1 img2 =
     (let arr1 = np_array img1;
          arr2 = np_array img2;
          d = np_abs_diff arr1 arr2
      in if flatten d = [] then Inl ValueError
         else
           let m = diff_mask d;
               dp = percent m;
               diff_path = path_join REPORTS_DIR (''diff_'' @ stem img1_path @ ''.png'')
           in Inr (\<lparr>mean_diff = round2 (np_mean (flatten d)),
                    max_diff = round2 (of_int (np_max (flatten d))),
                    diff_percent = round2 dp,
                    diff_image = diff_path,
                    resolution = [fst (isize img1), snd (isize img1)],
                    regions = find_regions m dp,
                    match_score = round2 (100 - dp)\<rparr>,
                   [(diff_path, PngImage (amplify d))]))"

definition pixel_diff :: "env \<Rightarrow> string \<Rightarrow> string \<Rightarrow> error + (diff_dict \<times> file_write list)" where
  "pixel_diff e img1_path img2_path =
     (if \<not> libs_installed e
      then Inr (ErrorDict ''pip install Pillow numpy for pixel comparison'', [])
      else
        case open_rgba e img1_path of
          Inl err \<Rightarrow> Inl err
        | Inr img1 \<Rightarrow>
            (case open_rgba e img2_path of
               Inl err \<Rightarrow> Inl err
             | Inr img2 \<Rightarrow>
                 (case normalize_pair (lanczos e) img1 img2 of
                    (a, b) \<Rightarrow>
                      (case diff_stats img1_path a b of
                         Inl err \<Rightarrow> Inl err
                       | Inr (r, ws) \<Rightarrow> Inr (Stats r, ws)))))"

section \<open>\<open>compare_screens\<close> and \<open>generate_markdown_report\<close>\<close>

text \<open>\<open>r.get("match_score", 0)\<close>, \<open>r.get("diff_percent", 0)\<close> and \<open>"status" in r\<close>.\<close>

fun get_match_score :: "screen_record \<Rightarrow> rat" where
  "get_match_score (Status s) = 0"
| "get_match_score (Compared c) =
     (case diff c of Stats r \<Rightarrow> match_score r | ErrorDict msg \<Rightarrow> 0)"

fun get_diff_percent :: "screen_record \<Rightarrow> rat" where
  "get_diff_percent (Status s) = 0"
| "get_diff_percent (Compared c) =
     (case diff c of Stats r \<Rightarrow> diff_percent r | ErrorDict msg \<Rightarrow> 0)"

fun has_status :: "screen_record \<Rightarrow> bool" where
  "has_status (Status s) = True"
| "has_status (Compared c) = False"

text \<open>The glyph expression of lines 264 and 318.\<close>

definition emoji :: "rat \<Rightarrow> glyph" where
  "emoji score = (if 95 < score then CheckMark else if 80 < score then YellowCircle else RedCircle)"

text \<open>The body of the loop over the targets (lines 237--260): the record of one screen
  and the files written for it.\<close>

definition compare_one :: "env \<Rightarrow> string \<Rightarrow> error + (screen_record \<times> file_write list)" where
  "compare_one e screen_name =
     (let upath = path_join UNITY_DIR (screen_name @ ''.png'');
          fpath = path_join FIGMA_DIR (screen_name @ ''.png'')
      in case files e upath of
           None \<Rightarrow> Inr (Status ''missing_unity'', [])
         | Some ubytes \<Rightarrow>
             (case files e fpath of
                None \<Rightarrow> Inr (Status ''missing_figma'', [])
              | Some fbytes \<Rightarrow>
                  (case pixel_diff e upath fpath of
                     Inl err \<Rightarrow> Inl err
                   | Inr (d, ws) \<Rightarrow>
                       Inr (Compared \<lparr>diff = d, unity_path = upath, figma_path = fpath,
                                       unity_hash = take 12 (md5_hexdigest e ubytes),
                                       figma_hash = take 12 (md5_hexdigest e fbytes)\<rparr>,
                            ws))))"

text \<open>The loop: \<open>results[screen_name] = ...\<close> keeps the place of a key already present
  and appends a new one; an exception ends the run.\<close>

fun run_targets ::
  "env \<Rightarrow> string list \<Rightarrow> (string \<times> screen_record) list \<Rightarrow> file_write list \<Rightarrow>
   error + ((string \<times> screen_record) list \<times> file_write list)" where
  "run_targets e [] results ws = Inr (results, ws)"
| "run_targets e (n # ns) results ws =
     (case compare_one e n of
        Inl err \<Rightarrow> Inl err
      | Inr (r, w) \<Rightarrow> run_targets e ns (AList.update n r results) (ws @ w))"

text \<open>The \<open>summary\<close> of lines 271--277.\<close>

definition summarize :: "(string \<times> screen_record) list \<Rightarrow> summary" where
  "summarize results =
     \<lparr>total_n = length results,
      passing = length (filter (\<lambda>r. 95 < get_match_score r) (map snd results)),
      warning = length (filter (\<lambda>r. 80 < get_match_score r \<and> get_match_score r \<le> 95) (map snd results)),
      failing = length (filter (\<lambda>r. get_match_score r \<le> 80) (map snd results)),
      missing = length (filter has_status (map snd results))\<rparr>"

fun md_row :: "string \<times> screen_record \<Rightarrow> md_line" where
  "md_row (name, Status s) = StatusRow name s"
| "md_row (name, Compared c) =
     ScoreRow name (get_match_score (Compared c)) (get_diff_percent (Compared c))
       (emoji (get_match_score (Compared c)))"

definition generate_markdown_report :: "report \<Rightarrow> md_line list" where
  "generate_markdown_report rep =
     [Literal ''# GOLFIN Visual QA Report'',
      Generated (timestamp rep),
      ScreensLine (total_n (summary rep)) (passing (summary rep))
        (warning (summary rep)) (failing (summary rep)),
      Literal '''',
      Literal ''## Results'',
      Literal '''',
      Literal ''| Screen | Match | Diff % | Status |'',
      Literal ''|--------|-------|--------|--------|'']
     @ map md_row (screens rep)
     @ [Literal '''',
        Literal ''## How to Fix'',
        Literal '''',
        Literal ''1. Open diff images in `QA/Reports/diff_*.png` to see highlighted differences'',
        Literal ''2. For AI-powered analysis, upload Unity + Figma screenshots to the chat'',
        Literal ''3. Run `Tools -> Create GOLFIN UI Scene` in Unity after code fixes'',
        Literal ''4. Recapture with `Tools -> QA -> Capture All Screens`'',
        Literal ''5. Re-run `python3 visual_qa.py --compare` to verify'']"

text \<open>Lines 230--233: \<open>if screens\<close> is false for \<open>None\<close> and for the empty list.\<close>

definition select_targets :: "string list option \<Rightarrow> string list" where
  "select_targets screens_arg =
     (case screens_arg of
        None \<Rightarrow> map fst SCREEN_MAP
      | Some [] \<Rightarrow> map fst SCREEN_MAP
      | Some (n # ns) \<Rightarrow> n # ns)"

text \<open>\<open>compare_screens(screens)\<close>: the report it returns and, in order, the files it
  writes.\<close>

definition compare_screens :: "env \<Rightarrow> string list option \<Rightarrow> error + (report \<times> file_write list)" where
  "compare_screens e screens_arg =
     (let targets = select_targets screens_arg
      in case run_targets e targets [] [] of
           Inl err \<Rightarrow> Inl err
         | Inr (results, ws) \<Rightarrow>
             (let rep = \<lparr>timestamp = now_isoformat e, screens = results,
                         summary = summarize results\<rparr>;
                  report_path = path_join REPORTS_DIR (''qa_report_'' @ now_strftime e @ ''.json'');
                  latest_path = path_join REPORTS_DIR ''qa_report_latest.json'';
                  md_path = path_join REPORTS_DIR ''qa_report_latest.md''
              in Inr (rep, ws @ [(report_path, JsonText rep),
                                 (latest_path, JsonText rep),
                                 (md_path, MarkdownText (generate_markdown_report rep))])))"

text \<open>The files under the reports directory after a run: the last write to a path
  wins.\<close>

definition written :: "file_write list \<Rightarrow> string \<Rightarrow> content option" where
  "written ws p = map_of (rev ws) p"

definition latest_json :: "error + (report \<times> file_write list) \<Rightarrow> content option" where
  "latest_json res =
     (case res of
        Inl err \<Rightarrow> None
      | Inr (rep, ws) \<Rightarrow> written ws (path_join REPORTS_DIR ''qa_report_latest.json''))"

definition latest_md :: "error + (report \<times> file_write list) \<Rightarrow> content option" where
  "latest_md res =
     (case res of
        Inl err \<Rightarrow> None
      | Inr (rep, ws) \<Rightarrow> written ws (path_join REPORTS_DIR ''qa_report_latest.md''))"

definition report_of :: "error + (report \<times> file_write list) \<Rightarrow> report option" where
  "report_of res = (case res of Inl err \<Rightarrow> None | Inr (rep, ws) \<Rightarrow> Some rep)"

section \<open>The words of the specification\<close>

text \<open>A differing pixel of a mask, the rows and the columns that hold one. The first
  and the last differing row are the least and the greatest element of
  \<open>differing_rows\<close>, and so for the columns.\<close>

definition differing :: "bool list list \<Rightarrow> nat \<Rightarrow> nat \<Rightarrow> bool" where
  "differing m i j \<longleftrightarrow> i < length m \<and> j < length (m ! i) \<and> m ! i ! j"

definition differing_rows :: "bool list list \<Rightarrow> nat set" where
  "differing_rows m = {i. \<exists>j. differing m i j}"

definition differing_cols :: "bool list list \<Rightarrow> nat set" where
  "differing_cols m = {j. \<exists>i. differing m i j}"

text \<open>A mask of \<open>h\<close> rows of \<open>w\<close> entries each.\<close>

definition rectangular :: "bool list list \<Rightarrow> nat \<Rightarrow> nat \<Rightarrow> bool" where
  "rectangular m h w \<longleftrightarrow> length m = h \<and> list_all (\<lambda>row. length row = w) m"

section \<open>Example inputs\<close>

text \<open>A resampler that fills the target with transparent black stands in for Lanczos
  where an example needs one; no theorem depends on what a resampler computes.\<close>

definition blank :: pixel where
  "blank = (0, 0, 0, 0)"

definition white :: pixel where
  "white = (255, 255, 255, 255)"

definition fill_resampler :: "nat \<times> nat \<Rightarrow> image \<Rightarrow> pixel list list" where
  "fill_resampler target img = replicate (snd target) (replicate (fst target) blank)"

definition img_100x200 :: image where
  "img_100x200 = \<lparr>isize = (100, 200), pixels = replicate 200 (replicate 100 blank)\<rparr>"

definition img_300x100 :: image where
  "img_300x100 = \<lparr>isize = (300, 100), pixels = replicate 100 (replicate 300 white)\<rparr>"

text \<open>Two images of 3 by 2 pixels that differ in the middle pixel of the second row.\<close>

definition img_plain :: image where
  "img_plain = \<lparr>isize = (3, 2), pixels = [[blank, blank, blank], [blank, blank, blank]]\<rparr>"

definition img_dot :: image where
  "img_dot = \<lparr>isize = (3, 2), pixels = [[blank, blank, blank], [blank, white, blank]]\<rparr>"

definition logo_unity :: string where
  "logo_unity = ''QA/Screenshots/Unity/LogoScreen.png''"

definition logo_figma :: string where
  "logo_figma = ''QA/Screenshots/Figma/LogoScreen.png''"

text \<open>A world where both images of \<open>LogoScreen\<close> exist, one where only the Figma
  export exists, and one without any file.\<close>

definition example_decode :: "string \<Rightarrow> image option" where
  "example_decode bytes =
     (if bytes = ''plain'' then Some img_plain
      else if bytes = ''dot'' then Some img_dot
      else None)"

definition env_both :: env where
  "env_both =
     \<lparr>files = (\<lambda>p. if p = logo_unity then Some ''dot''
                     else if p = logo_figma then Some ''plain'' else None),
      decode = example_decode,
      lanczos = fill_resampler,
      md5_hexdigest = (\<lambda>bytes. ''0123456789abcdef0123456789abcdef''),
      now_isoformat = ''2026-01-01T09:00:00'',
      now_strftime = ''20260101_090000'',
      libs_installed = True\<rparr>"

definition env_figma_only :: env where
  "env_figma_only = env_both\<lparr>files := (\<lambda>p. if p = logo_figma then Some ''plain'' else None)\<rparr>"

definition env_empty :: env where
  "env_empty = env_both\<lparr>files := (\<lambda>p. None)\<rparr>"

definition env_later :: env where
  "env_later = env_both\<lparr>now_isoformat := ''2026-01-01T18:30:00'', now_strftime := ''20260101_183000''\<rparr>"

text \<open>Two strips of 20 by 1 pixels that differ in the first pixel, and a world where
  they are the two images of \<open>LogoScreen\<close>: one pixel in twenty differs.\<close>

definition img_strip :: image where
  "img_strip = \<lparr>isize = (20, 1), pixels = [replicate 20 blank]\<rparr>"

definition img_strip_dot :: image where
  "img_strip_dot = \<lparr>isize = (20, 1), pixels = [white # replicate 19 blank]\<rparr>"

definition strip_decode :: "string \<Rightarrow> image option" where
  "strip_decode bytes =
     (if bytes = ''plain'' then Some img_strip
      else if bytes = ''dot'' then Some img_strip_dot
      else None)"

definition env_strip :: env where
  "env_strip = env_both\<lparr>decode := strip_decode\<rparr>"

text \<open>The comparison of \<open>img_dot\<close> with \<open>img_plain\<close>: its mask, its region, the
  dictionary and the write of \<open>pixel_diff\<close>, and the report of the run on \<open>env_both\<close>.\<close>

definition dot_mask :: "bool list list" where
  "dot_mask = diff_mask (np_abs_diff (np_array img_dot) (np_array img_plain))"

definition dot_region :: region where
  "dot_region = \<lparr>y_start = 1, y_end = 2, x_start = 1, x_end = 2, area_percent = 1667 / 100\<rparr>"

definition dot_result :: diff_result where
  "dot_result =
     \<lparr>mean_diff = 85 / 2, max_diff = 255, diff_percent = 1667 / 100,
      diff_image = ''QA/Reports/diff_LogoScreen.png'',
      resolution = [3, 2],
      regions = [dot_region],
      match_score = 8333 / 100\<rparr>"

definition dot_writes :: "file_write list" where
  "dot_writes =
     [(''QA/Reports/diff_LogoScreen.png'',
       PngImage [[[0, 0, 0, 0], [0, 0, 0, 0], [0, 0, 0, 0]],
                 [[0, 0, 0, 0], [255, 255, 255, 255], [0, 0, 0, 0]]])]"

definition dot_report :: report where
  "dot_report =
     \<lparr>timestamp = ''2026-01-01T09:00:00'',
      screens =
        [(''LogoScreen'',
          Compared \<lparr>diff = Stats dot_result,
                    unity_path = ''QA/Screenshots/Unity/LogoScreen.png'',
                    figma_path = ''QA/Screenshots/Figma/LogoScreen.png'',
                    unity_hash = ''0123456789ab'',
                    figma_hash = ''0123456789ab''\<rparr>)],
      summary = \<lparr>total_n = 1, passing = 0, warning = 1, failing = 0, missing = 0\<rparr>\<rparr>"

definition empty_report :: report where
  "empty_report =
     \<lparr>timestamp = ''2026-01-01T09:00:00'',
      screens = [(''LogoScreen'', Status ''missing_unity''),
                 (''SplashScreen'', Status ''missing_unity''),
                 (''LoadingScreen'', Status ''missing_unity'')],
      summary = \<lparr>total_n = 3, passing = 0, warning = 0, failing = 3, missing = 3\<rparr>\<rparr>"

text \<open>The mask of a comparison at 4000 by 1 in which 11 pixels differ.\<close>

definition mask_11_of_4000 :: "bool list list" where
  "mask_11_of_4000 = [replicate 11 True @ replicate 3989 False]"

section \<open>Lemmas on rounding\<close>

lemma rint_cases: "rint x = \<lfloor>x\<rfloor> \<or> rint x = \<lfloor>x\<rfloor> + 1"
  by (simp add: rint_def Let_def)

lemma rint_of_int [simp]: "rint (of_int n) = n"
  by (simp add: rint_def Let_def)

lemma rint_lower: "of_int n \<le> x \<Longrightarrow> n \<le> rint x"
proof -
  assume "of_int n \<le> x"
  then have "n \<le> \<lfloor>x\<rfloor>" by (simp add: le_floor_iff)
  with rint_cases [of x] show ?thesis by linarith
qed

lemma rint_upper: "x \<le> of_int n \<Longrightarrow> rint x \<le> n"
proof (cases "x = of_int n")
  case True
  then show ?thesis by simp
next
  case False
  assume "x \<le> of_int n"
  with False have "x < of_int n" by simp
  then have "\<lfloor>x\<rfloor> < n" by (simp add: floor_less_iff)
  with rint_cases [of x] show ?thesis by linarith
qed

lemma round2_bounds:
  assumes "0 \<le> x" "x \<le> 100"
  shows "0 \<le> round2 x \<and> round2 x \<le> 100"
proof -
  have "of_int 0 \<le> x * 100" using assms by simp
  then have lo: "0 \<le> rint (x * 100)" by (rule rint_lower)
  have "x * 100 \<le> of_int 10000" using assms by simp
  then have hi: "rint (x * 100) \<le> 10000" by (rule rint_upper)
  have "(of_int (rint (x * 100)) :: rat) \<le> of_int 10000"
    using hi by (simp only: of_int_le_iff)
  with lo show ?thesis by (simp add: round2_def)
qed


section \<open>Lemmas on \<open>float64\<close> rounding\<close>

lemma powi_nat: "0 \<le> n \<Longrightarrow> (2::rat) powi n = 2 ^ nat n"
  by (simp add: power_int_def)

lemma ilog2_bounds:
  assumes "0 < x"
  shows "2 powi (ilog2 x) \<le> x \<and> x < 2 powi (ilog2 x + 1)"
proof -
  obtain p q where pq: "quotient_of x = (p, q)" by (cases "quotient_of x")
  have q: "0 < q" using quotient_of_denom_pos [OF pq] .
  have x: "x = of_int p / of_int q" using quotient_of_div [OF pq] .
  have p: "0 < p"
  proof (rule ccontr)
    assume "\<not> 0 < p"
    then have "(of_int p :: rat) \<le> 0" by simp
    then have "x \<le> 0" using q unfolding x by (simp add: divide_nonpos_pos)
    with assms show False by simp
  qed
  define bp where "bp = bitlen p"
  define bq where "bq = bitlen q"
  have bp1: "1 \<le> bp" and bq1: "1 \<le> bq"
    using p q by (simp_all add: bp_def bq_def bitlen_alt_def)
  from bitlen_bounds [OF p] have ip: "2 ^ nat (bp - 1) \<le> p" "p < 2 ^ nat bp"
    by (simp_all add: bp_def)
  have "(of_int (2 ^ nat (bp - 1)) :: rat) \<le> of_int p" using ip(1) by (simp only: of_int_le_iff)
  then have P1: "(2::rat) powi (bp - 1) \<le> of_int p" using bp1 by (simp add: powi_nat)
  have "(of_int p :: rat) < of_int (2 ^ nat bp)" using ip(2) by (simp only: of_int_less_iff)
  then have P2: "of_int p < (2::rat) powi bp" using bp1 by (simp add: powi_nat)
  from bitlen_bounds [OF q] have iq: "2 ^ nat (bq - 1) \<le> q" "q < 2 ^ nat bq"
    by (simp_all add: bq_def)
  have "(of_int (2 ^ nat (bq - 1)) :: rat) \<le> of_int q" using iq(1) by (simp only: of_int_le_iff)
  then have Q1: "(2::rat) powi (bq - 1) \<le> of_int q" using bq1 by (simp add: powi_nat)
  have "(of_int q :: rat) < of_int (2 ^ nat bq)" using iq(2) by (simp only: of_int_less_iff)
  then have Q2: "of_int q < (2::rat) powi bq" using bq1 by (simp add: powi_nat)
  have qpos: "(0::rat) < of_int q" using q by simp
  define e where "e = bp - bq"
  have up: "x < 2 powi (e + 1)"
  proof -
    have "of_int p < (2::rat) powi bp" by (rule P2)
    also have "\<dots> = 2 powi (e + 1) * 2 powi (bq - 1)"
      unfolding e_def by (subst power_int_add [symmetric]) simp_all
    also have "\<dots> \<le> 2 powi (e + 1) * of_int q"
      using Q1 by (intro mult_left_mono) simp_all
    finally show ?thesis using qpos unfolding x by (simp add: pos_divide_less_eq)
  qed
  have lo: "2 powi (e - 1) \<le> x"
  proof -
    have "2 powi (e - 1) * of_int q \<le> 2 powi (e - 1) * (2::rat) powi bq"
      using Q2 by (intro mult_left_mono) simp_all
    also have "\<dots> = 2 powi (bp - 1)"
      unfolding e_def by (subst power_int_add [symmetric]) simp_all
    also have "\<dots> \<le> of_int p" by (rule P1)
    finally show ?thesis using qpos unfolding x by (simp add: pos_le_divide_eq)
  qed
  have il: "ilog2 x = (if 2 powi e \<le> x then e else e - 1)"
    by (simp add: ilog2_def pq Let_def e_def bp_def bq_def)
  show ?thesis
  proof (cases "2 powi e \<le> x")
    case True
    with up il show ?thesis by simp
  next
    case False
    with lo il show ?thesis by simp
  qed
qed

lemma ilog2_unique:
  assumes "0 < x" "2 powi e \<le> x" "x < 2 powi (e + 1)"
  shows "ilog2 x = e"
proof -
  note b = ilog2_bounds [OF assms(1)]
  have "\<not> e < ilog2 x"
  proof
    assume "e < ilog2 x"
    then have "e + 1 \<le> ilog2 x" by simp
    then have "(2::rat) powi (e + 1) \<le> 2 powi (ilog2 x)"
      by (intro power_int_increasing) simp_all
    with b assms(3) show False by linarith
  qed
  moreover have "\<not> ilog2 x < e"
  proof
    assume "ilog2 x < e"
    then have "ilog2 x + 1 \<le> e" by simp
    then have "(2::rat) powi (ilog2 x + 1) \<le> 2 powi e"
      by (intro power_int_increasing) simp_all
    with b assms(2) show False by linarith
  qed
  ultimately show ?thesis by simp
qed

lemma rint_err: "\<bar>of_int (rint y) - y\<bar> \<le> 1 / 2"
proof -
  have "of_int \<lfloor>y\<rfloor> \<le> y" "y < of_int \<lfloor>y\<rfloor> + 1" by linarith+
  then show ?thesis by (auto simp: rint_def Let_def)
qed

lemma fl_err: "\<bar>fl x - x\<bar> \<le> \<bar>x\<bar> / 9007199254740992"
proof (cases "x = 0")
  case True
  then show ?thesis by (simp add: fl_def)
next
  case False
  define e where "e = ilog2 \<bar>x\<bar>"
  define u where "u = (2::rat) powi (e - 52)"
  have upos: "0 < u" by (simp add: u_def)
  have ax: "0 < \<bar>x\<bar>" using False by simp
  have "2 powi e \<le> \<bar>x\<bar>" using ilog2_bounds [OF ax] by (simp add: e_def)
  moreover have "u = 2 powi e / 4503599627370496"
    by (simp add: u_def power_int_diff)
  ultimately have ub: "u \<le> \<bar>x\<bar> / 4503599627370496" by (simp add: divide_right_mono)
  have f: "fl x = of_int (rint (x / u)) * u"
    using False by (simp add: fl_def Let_def u_def e_def)
  have "\<bar>fl x - x\<bar> = \<bar>of_int (rint (x / u)) - x / u\<bar> * u"
  proof -
    have "fl x - x = (of_int (rint (x / u)) - x / u) * u"
      using upos by (simp add: f algebra_simps)
    then show ?thesis using upos by (simp add: abs_mult)
  qed
  also have "\<dots> \<le> 1 / 2 * u"
    using rint_err [of "x / u"] upos by (intro mult_right_mono) simp_all
  also have "\<dots> \<le> 1 / 2 * (\<bar>x\<bar> / 4503599627370496)"
    using ub by simp
  finally show ?thesis by simp
qed

lemma fl_eval:
  assumes "x \<noteq> 0" "2 powi e \<le> \<bar>x\<bar>" "\<bar>x\<bar> < 2 powi (e + 1)"
  shows "fl x = of_int (rint (x / 2 powi (e - 52))) * 2 powi (e - 52)"
proof -
  have "0 < \<bar>x\<bar>" using assms(1) by simp
  from ilog2_unique [OF this assms(2,3)] show ?thesis
    using assms(1) by (simp add: fl_def Let_def)
qed

lemma rint_eqI:
  assumes "of_int c - 1 / 2 < y" "y < of_int c + 1 / 2"
  shows "rint y = c"
proof (cases "of_int c \<le> y")
  case True
  then have f: "\<lfloor>y\<rfloor> = c" using assms(2) by (intro floor_unique) simp_all
  have "y - of_int c < 1 / 2" using assms(2) by simp
  then show ?thesis by (simp add: rint_def Let_def f)
next
  case False
  then have f: "\<lfloor>y\<rfloor> = c - 1" using assms(1) by (intro floor_unique) simp_all
  have "1 / 2 < y - of_int (c - 1)" using assms(1) by simp
  then show ?thesis by (simp add: rint_def Let_def f)
qed

lemma rint_tie_even:
  assumes "y = of_int c + 1 / 2" "even c"
  shows "rint y = c"
proof -
  have f: "\<lfloor>y\<rfloor> = c" unfolding assms(1) by (intro floor_unique) simp_all
  have d: "y - of_int c = 1 / 2" by (simp add: assms(1))
  have "rint y = (if (1::rat) / 2 < 1 / 2 then c else if (1::rat) / 2 < 1 / 2 then c + 1
                  else if even c then c else c + 1)"
    unfolding rint_def Let_def f d ..
  then show ?thesis using assms(2) by simp
qed

lemma fl_eqI:
  assumes "2 powi e \<le> \<bar>x\<bar>" "\<bar>x\<bar> < 2 powi (e + 1)"
    and "of_int c - 1 / 2 < x / 2 powi (e - 52)" "x / 2 powi (e - 52) < of_int c + 1 / 2"
    and "y = of_int c * 2 powi (e - 52)"
  shows "fl x = y"
proof -
  have "(0::rat) < 2 powi e" by simp
  with assms(1) have "0 < \<bar>x\<bar>" by linarith
  then have "x \<noteq> 0" by simp
  from fl_eval [OF this assms(1,2)] rint_eqI [OF assms(3,4)] assms(5)
  show ?thesis by simp
qed

lemma abs_boundsD: "\<bar>x::rat\<bar> \<le> d \<Longrightarrow> - d \<le> x \<and> x \<le> d"
  by (simp add: abs_le_iff)

lemma abs_boundsI: "- d \<le> x \<Longrightarrow> x \<le> d \<Longrightarrow> \<bar>x::rat\<bar> \<le> d"
  by (simp add: abs_le_iff)

lemma fl_bound:
  assumes "\<bar>x\<bar> \<le> B"
  shows "\<bar>fl x - x\<bar> \<le> B / 9007199254740992"
proof -
  have "\<bar>x\<bar> / 9007199254740992 \<le> B / 9007199254740992"
    using assms by (simp add: divide_right_mono)
  with fl_err [of x] show ?thesis by linarith
qed

lemma np_round2_near:
  assumes "\<bar>x\<bar> \<le> 102"
  shows "\<exists>c::int. \<bar>of_int c - 100 * x\<bar> \<le> 1 / 2 + 10200 / 9007199254740992 \<and>
           \<bar>np_round2 x - of_int c / 100\<bar> \<le> 103 / 9007199254740992"
proof -
  define u where "u = fl (x * 100)"
  define c where "c = rint u"
  have "\<bar>x * 100\<bar> \<le> 10200" using assms by (simp add: abs_mult)
  from fl_bound [OF this] have u: "\<bar>u - x * 100\<bar> \<le> 10200 / 9007199254740992"
    by (simp add: u_def)
  have r: "\<bar>of_int c - u\<bar> \<le> 1 / 2" unfolding c_def by (rule rint_err)
  have c1: "\<bar>of_int c - 100 * x\<bar> \<le> 1 / 2 + 10200 / 9007199254740992"
    using abs_boundsD [OF u] abs_boundsD [OF r] by (intro abs_boundsI) linarith+
  have "\<bar>(of_int c :: rat)\<bar> \<le> 10300"
    using abs_boundsD [OF c1] abs_boundsD [OF assms] by (intro abs_boundsI) linarith+
  then have "\<bar>(of_int c :: rat) / 100\<bar> \<le> 103" by simp
  from fl_bound [OF this] have "\<bar>fl (of_int c / 100) - of_int c / 100\<bar> \<le> 103 / 9007199254740992" .
  moreover have "np_round2 x = fl (of_int c / 100)"
    by (simp add: np_round2_def f64_div_def f64_mul_def c_def u_def)
  ultimately show ?thesis using c1 by auto
qed

section \<open>Lemmas on \<open>np.argmax\<close>\<close>

lemma np_argmax_first:
  assumes "np_any xs"
  shows "np_argmax xs < length xs \<and> xs ! np_argmax xs \<and> (\<forall>i < np_argmax xs. \<not> xs ! i)"
proof -
  let ?k = "length (takeWhile Not xs)"
  have k: "np_argmax xs = ?k" using assms by (simp add: np_argmax_def)
  have lt: "?k < length xs"
  proof (rule ccontr)
    assume "\<not> ?k < length xs"
    then have "?k = length xs" using length_takeWhile_le [of Not xs] by simp
    then have "takeWhile Not xs = xs" by (metis takeWhile_eq_take take_all order_refl)
    then have "\<forall>x \<in> set xs. \<not> x" by (metis set_takeWhileD)
    with assms show False by (auto simp: np_any_def)
  qed
  have "\<not> Not (xs ! ?k)" using lt by (rule nth_length_takeWhile)
  moreover have "\<forall>i < ?k. \<not> xs ! i"
  proof (intro allI impI)
    fix i assume i: "i < ?k"
    then have "takeWhile Not xs ! i = xs ! i" by (rule takeWhile_nth)
    moreover have "takeWhile Not xs ! i \<in> set (takeWhile Not xs)" using i by simp
    ultimately show "\<not> xs ! i" by (metis set_takeWhileD)
  qed
  ultimately show ?thesis using lt k by simp
qed

lemma np_argmax_last:
  assumes "np_any xs"
  defines "e \<equiv> length xs - np_argmax (rev xs)"
  shows "0 < e \<and> e \<le> length xs \<and> xs ! (e - 1) \<and> (\<forall>i. e \<le> i \<and> i < length xs \<longrightarrow> \<not> xs ! i)"
proof -
  have any: "np_any (rev xs)" using assms by (simp add: np_any_def)
  note f = np_argmax_first [OF any]
  let ?k = "np_argmax (rev xs)"
  have klt: "?k < length xs" using f by simp
  have e: "e = length xs - ?k" by (simp add: e_def)
  have "rev xs ! ?k = xs ! (length xs - Suc ?k)" using klt by (simp add: rev_nth)
  then have at: "xs ! (e - 1)" using f e by simp
  have "\<forall>i. e \<le> i \<and> i < length xs \<longrightarrow> \<not> xs ! i"
  proof (intro allI impI)
    fix i assume i: "e \<le> i \<and> i < length xs"
    let ?j = "length xs - Suc i"
    have j: "?j < ?k" using i e klt by linarith
    have jl: "?j < length xs" using i by linarith
    have "rev xs ! ?j = xs ! (length xs - Suc ?j)" using jl by (rule rev_nth)
    moreover have "length xs - Suc ?j = i" using i by linarith
    moreover have "\<not> rev xs ! ?j" using f j by blast
    ultimately show "\<not> xs ! i" by simp
  qed
  then show ?thesis using klt e at by simp
qed


section \<open>Lemmas on \<open>pixel_diff\<close>\<close>

lemma pixel_diff_StatsD:
  assumes "pixel_diff e p1 p2 = Inr (Stats r, ws)"
  shows "\<exists>img1 img2 a b. open_rgba e p1 = Inr img1 \<and> open_rgba e p2 = Inr img2 \<and>
           normalize_pair (lanczos e) img1 img2 = (a, b) \<and> diff_stats p1 a b = Inr (r, ws)"
  using assms by (auto simp: pixel_diff_def split: if_splits sum.splits prod.splits)

lemma diff_stats_InrD:
  assumes "diff_stats p a b = Inr (r, ws)"
  defines "d \<equiv> np_abs_diff (np_array a) (np_array b)"
  shows "flatten d \<noteq> [] \<and>
         mean_diff r = round2 (np_mean (flatten d)) \<and>
         max_diff r = round2 (of_int (np_max (flatten d))) \<and>
         diff_percent r = round2 (percent (diff_mask d)) \<and>
         match_score r = round2 (100 - percent (diff_mask d)) \<and>
         regions r = find_regions (diff_mask d) (percent (diff_mask d)) \<and>
         resolution r = [fst (isize a), snd (isize a)]"
  using assms by (auto simp: diff_stats_def Let_def split: if_splits)

lemma mask_sum_le_size: "mask_sum m \<le> mask_size m"
  by (simp add: mask_sum_def mask_size_def)

lemma percent_bounds: "0 \<le> percent m \<and> percent m \<le> 100"
proof -
  have le: "(of_nat (mask_sum m) :: rat) \<le> of_nat (mask_size m)"
    using mask_sum_le_size [of m] by (simp only: of_nat_le_iff)
  have "(of_nat (mask_sum m) :: rat) / of_nat (mask_size m) \<le> 1"
  proof (cases "mask_size m = 0")
    case True
    then show ?thesis by simp
  next
    case False
    then have "(0::rat) < of_nat (mask_size m)" by simp
    with le show ?thesis by (simp add: divide_le_eq_1)
  qed
  then have "(of_nat (mask_sum m) :: rat) / of_nat (mask_size m) * 100 \<le> 1 * 100"
    by (rule mult_right_mono) simp
  moreover have "0 \<le> (of_nat (mask_sum m) :: rat) / of_nat (mask_size m) * 100"
    by simp
  ultimately show ?thesis unfolding percent_def by simp
qed

lemma normalize_pair_same_size:
  "normalize_pair f x y = (a, b) \<Longrightarrow> isize a = isize b"
  by (auto simp: normalize_pair_def resize_def Let_def split: if_splits)

lemma all_zero_sum: "(\<And>x. x \<in> set xs \<Longrightarrow> x = (0::int)) \<Longrightarrow> sum_list xs = 0"
  by (induction xs) auto

lemma np_abs_diff_self: "np_abs_diff arr arr = map (map (map (\<lambda>x. 0))) arr"
  by (simp add: np_abs_diff_def zip_same_conv_map)

lemma flatten_self_zero: "x \<in> set (flatten (np_abs_diff arr arr)) \<Longrightarrow> x = 0"
  by (auto simp: np_abs_diff_self flatten_def)

lemma diff_mask_self: "diff_mask (np_abs_diff arr arr) = map (map (\<lambda>px. False)) arr"
  by (simp add: np_abs_diff_self diff_mask_def np_mean_def threshold_def)

lemma percent_self: "percent (diff_mask (np_abs_diff arr arr)) = 0"
proof -
  have "filter (\<lambda>b. b) (concat (map (map (\<lambda>px. False)) arr)) = []"
    by (auto simp: filter_empty_conv)
  then show ?thesis by (simp add: diff_mask_self percent_def mask_sum_def)
qed

lemma flatten_nonempty:
  assumes "wf_image img"
  shows "flatten (np_abs_diff (np_array img) (np_array img)) \<noteq> []"
proof -
  from assms obtain row rest where r: "pixels img = row # rest"
    by (cases "pixels img") (auto simp: wf_image_def)
  with assms obtain p ps where p: "row = p # ps"
    by (cases row) (auto simp: wf_image_def)
  obtain r g b a where "p = (r, g, b, a)" by (cases p) auto
  with r p show ?thesis
    by (simp add: np_abs_diff_self flatten_def np_array_def channels_def)
qed

lemma round2_0 [simp]: "round2 0 = 0"
  by (simp add: round2_def rint_def)

lemma round2_100 [simp]: "round2 100 = 100"
  by (simp add: round2_def rint_def)

lemma identical_core:
  assumes "wf_image img"
  shows "\<exists>r ws. diff_stats p img img = Inr (r, ws) \<and> diff_percent r = 0 \<and> mean_diff r = 0 \<and>
           max_diff r = 0 \<and> match_score r = 100 \<and> regions r = []"
proof -
  let ?d = "np_abs_diff (np_array img) (np_array img)"
  have ne: "flatten ?d \<noteq> []" using assms by (rule flatten_nonempty)
  have z: "\<And>x. x \<in> set (flatten ?d) \<Longrightarrow> x = 0" by (rule flatten_self_zero)
  have s: "set (flatten ?d) = {0}"
  proof -
    from ne obtain x where "x \<in> set (flatten ?d)" by (cases "flatten ?d") auto
    with z show ?thesis by auto
  qed
  have mx: "np_max (flatten ?d) = 0" by (simp add: np_max_def s)
  have mn: "np_mean (flatten ?d) = 0" using all_zero_sum [OF z] by (simp add: np_mean_def)
  have pc: "percent (diff_mask ?d) = 0" by (rule percent_self)
  show ?thesis
    using ne by (simp add: diff_stats_def Let_def mx mn pc find_regions_def)
qed


section \<open>Lemmas on the mask and its region\<close>

lemma rectangular_nth: "rectangular m h w \<Longrightarrow> i < h \<Longrightarrow> length (m ! i) = w"
  by (simp add: rectangular_def list_all_length)

lemma any_axis1_nth:
  assumes "rectangular m h w" "i < h"
  shows "any_axis1 m ! i \<longleftrightarrow> (\<exists>j. differing m i j)"
proof -
  have "length m = h" using assms by (simp add: rectangular_def)
  with assms(2) have "any_axis1 m ! i \<longleftrightarrow> True \<in> set (m ! i)"
    by (simp add: any_axis1_def np_any_def)
  also have "\<dots> \<longleftrightarrow> (\<exists>j < length (m ! i). m ! i ! j)"
    by (auto simp: in_set_conv_nth)
  also have "\<dots> \<longleftrightarrow> (\<exists>j. differing m i j)"
    using assms(2) \<open>length m = h\<close> by (auto simp: differing_def)
  finally show ?thesis .
qed

lemma length_any_axis1: "rectangular m h w \<Longrightarrow> length (any_axis1 m) = h"
  by (simp add: any_axis1_def rectangular_def)

lemma ncols_rect: "rectangular m h w \<Longrightarrow> 0 < h \<Longrightarrow> ncols m = w"
  by (cases m) (auto simp: ncols_def rectangular_def)

lemma length_any_axis0: "rectangular m h w \<Longrightarrow> 0 < h \<Longrightarrow> length (any_axis0 m) = w"
  by (simp add: any_axis0_def ncols_rect)

lemma any_axis0_nth:
  assumes "rectangular m h w" "0 < h" "j < w"
  shows "any_axis0 m ! j \<longleftrightarrow> (\<exists>i. differing m i j)"
proof -
  have len: "length m = h" using assms by (simp add: rectangular_def)
  have "any_axis0 m ! j \<longleftrightarrow> True \<in> set (map (\<lambda>row. row ! j) m)"
    using assms by (simp add: any_axis0_def ncols_rect np_any_def)
  also have "\<dots> \<longleftrightarrow> (\<exists>row \<in> set m. row ! j)"
    by auto
  also have "\<dots> \<longleftrightarrow> (\<exists>i < length m. m ! i ! j)"
    by (metis in_set_conv_nth)
  also have "\<dots> \<longleftrightarrow> (\<exists>i. differing m i j)"
    using assms len rectangular_nth [OF assms(1)] by (auto simp: differing_def)
  finally show ?thesis .
qed

lemma differing_rows_eq:
  assumes "rectangular m h w"
  shows "differing_rows m = {i. i < length (any_axis1 m) \<and> any_axis1 m ! i}"
proof -
  have "\<And>i j. differing m i j \<Longrightarrow> i < h"
    using assms by (simp add: differing_def rectangular_def)
  then show ?thesis
    using any_axis1_nth [OF assms] length_any_axis1 [OF assms]
    by (auto simp: differing_rows_def)
qed

lemma differing_cols_eq:
  assumes "rectangular m h w" "0 < h"
  shows "differing_cols m = {j. j < length (any_axis0 m) \<and> any_axis0 m ! j}"
proof -
  have "\<And>i j. differing m i j \<Longrightarrow> j < w"
    using assms rectangular_nth [OF assms(1)] by (auto simp: differing_def rectangular_def)
  then show ?thesis
    using any_axis0_nth [OF assms] length_any_axis0 [OF assms]
    by (auto simp: differing_cols_def)
qed

lemma np_argmax_Min:
  assumes "np_any xs"
  shows "np_argmax xs = Min {i. i < length xs \<and> xs ! i}"
proof -
  note f = np_argmax_first [OF assms]
  have "Min {i. i < length xs \<and> xs ! i} = np_argmax xs"
  proof (rule Min_eqI)
    show "finite {i. i < length xs \<and> xs ! i}" by simp
    show "np_argmax xs \<in> {i. i < length xs \<and> xs ! i}" using f by simp
    fix y assume "y \<in> {i. i < length xs \<and> xs ! i}"
    then have "xs ! y" by simp
    with f show "np_argmax xs \<le> y" by (meson not_le_imp_less)
  qed
  then show ?thesis by simp
qed

lemma np_argmax_rev_Max:
  assumes "np_any xs"
  shows "length xs - np_argmax (rev xs) = Max {i. i < length xs \<and> xs ! i} + 1"
proof -
  let ?e = "length xs - np_argmax (rev xs)"
  note l = np_argmax_last [OF assms]
  have "Max {i. i < length xs \<and> xs ! i} = ?e - 1"
  proof (rule Max_eqI)
    show "finite {i. i < length xs \<and> xs ! i}" by simp
    show "?e - 1 \<in> {i. i < length xs \<and> xs ! i}" using l by auto
    fix y assume y: "y \<in> {i. i < length xs \<and> xs ! i}"
    show "y \<le> ?e - 1"
    proof (rule ccontr)
      assume "\<not> y \<le> ?e - 1"
      then have "?e \<le> y" by linarith
      with l y show False by auto
    qed
  qed
  moreover have "0 < ?e" using l by blast
  ultimately show ?thesis by linarith
qed

lemma np_argmax_le: "np_argmax xs \<le> length xs"
  by (simp add: np_argmax_def length_takeWhile_le)

lemma int_end:
  assumes "np_any xs"
  shows "int (length xs) - int (np_argmax (rev xs)) = int (Max {i. i < length xs \<and> xs ! i}) + 1"
proof -
  have "np_argmax (rev xs) \<le> length xs" using np_argmax_le [of "rev xs"] by simp
  then have "int (length xs) - int (np_argmax (rev xs)) = int (length xs - np_argmax (rev xs))"
    by (simp add: of_nat_diff)
  also have "\<dots> = int (Max {i. i < length xs \<and> xs ! i} + 1)"
    by (simp only: np_argmax_rev_Max [OF assms])
  finally show ?thesis by simp
qed

lemma np_argmax_order:
  assumes "np_any xs"
  shows "np_argmax xs < length xs - np_argmax (rev xs) \<and>
         length xs - np_argmax (rev xs) \<le> length xs"
proof -
  note f = np_argmax_first [OF assms]
  note l = np_argmax_last [OF assms]
  let ?e = "length xs - np_argmax (rev xs)"
  have "\<not> ?e - 1 < np_argmax xs" using f l by blast
  with l show ?thesis by linarith
qed

lemma np_any_axes:
  assumes "rectangular m h w" "differing m i j"
  shows "np_any (any_axis1 m) \<and> np_any (any_axis0 m) \<and> 0 < h"
proof -
  have i: "i < h" and j: "j < w"
    using assms rectangular_nth [OF assms(1)] by (auto simp: differing_def rectangular_def)
  then have h: "0 < h" by simp
  have "any_axis1 m ! i" using any_axis1_nth [OF assms(1) i] assms(2) by blast
  then have "np_any (any_axis1 m)"
    using i length_any_axis1 [OF assms(1)] unfolding np_any_def by (metis nth_mem)
  moreover have "any_axis0 m ! j" using any_axis0_nth [OF assms(1) h j] assms(2) by blast
  then have "np_any (any_axis0 m)"
    using j length_any_axis0 [OF assms(1) h] unfolding np_any_def by (metis nth_mem)
  ultimately show ?thesis using h by simp
qed

lemma np_any_rows_differing:
  assumes "rectangular m h w" "np_any (any_axis1 m)"
  shows "\<exists>i j. differing m i j"
proof -
  from assms(2) obtain i where i: "i < length (any_axis1 m)" "any_axis1 m ! i"
    unfolding np_any_def by (metis in_set_conv_nth)
  then have "i < h" using length_any_axis1 [OF assms(1)] by simp
  with i any_axis1_nth [OF assms(1)] show ?thesis by blast
qed

lemma find_regions_box:
  assumes "rectangular m h w" "1 / 2 < dp" "differing m i j"
  shows "find_regions m dp =
           [\<lparr>y_start = int (Min (differing_rows m)),
             y_end = int (Max (differing_rows m)) + 1,
             x_start = int (Min (differing_cols m)),
             x_end = int (Max (differing_cols m)) + 1,
             area_percent = round2 dp\<rparr>]"
proof -
  note a = np_any_axes [OF assms(1,3)]
  have r: "np_any (any_axis1 m)" and c: "np_any (any_axis0 m)" and h: "0 < h"
    using a by simp_all
  have rows: "differing_rows m = {i. i < length (any_axis1 m) \<and> any_axis1 m ! i}"
    by (rule differing_rows_eq [OF assms(1)])
  have cols: "differing_cols m = {j. j < length (any_axis0 m) \<and> any_axis0 m ! j}"
    by (rule differing_cols_eq [OF assms(1) h])
  have ys: "int (np_argmax (any_axis1 m)) = int (Min (differing_rows m))"
    using np_argmax_Min [OF r] rows by simp
  have xs: "int (np_argmax (any_axis0 m)) = int (Min (differing_cols m))"
    using np_argmax_Min [OF c] cols by simp
  have ye: "int (length (any_axis1 m)) - int (np_argmax (rev (any_axis1 m))) =
            int (Max (differing_rows m)) + 1"
    using int_end [OF r] rows by simp
  have xe: "int (length (any_axis0 m)) - int (np_argmax (rev (any_axis0 m))) =
            int (Max (differing_cols m)) + 1"
    using int_end [OF c] cols by simp
  show ?thesis
    using assms(2) r by (simp add: find_regions_def Let_def ys xs ye xe)
qed

lemma find_regions_bounds:
  assumes "rectangular m h w" "g \<in> set (find_regions m dp)"
  shows "0 \<le> y_start g \<and> y_start g < y_end g \<and> y_end g \<le> int h \<and>
         0 \<le> x_start g \<and> x_start g < x_end g \<and> x_end g \<le> int w \<and>
         area_percent g = round2 dp"
proof -
  from assms(2) have dp: "1 / 2 < dp" and r: "np_any (any_axis1 m)"
    by (auto simp: find_regions_def Let_def split: if_splits)
  from np_any_rows_differing [OF assms(1) r] obtain i j where d: "differing m i j" by blast
  note a = np_any_axes [OF assms(1) d]
  have c: "np_any (any_axis0 m)" and h: "0 < h" using a by simp_all
  have g: "g = \<lparr>y_start = int (np_argmax (any_axis1 m)),
                y_end = int (length (any_axis1 m)) - int (np_argmax (rev (any_axis1 m))),
                x_start = int (np_argmax (any_axis0 m)),
                x_end = int (length (any_axis0 m)) - int (np_argmax (rev (any_axis0 m))),
                area_percent = round2 dp\<rparr>"
    using assms(2) dp r by (simp add: find_regions_def Let_def)
  note oy = np_argmax_order [OF r]
  note ox = np_argmax_order [OF c]
  have ly: "length (any_axis1 m) = h" by (rule length_any_axis1 [OF assms(1)])
  have lx: "length (any_axis0 m) = w" by (rule length_any_axis0 [OF assms(1) h])
  show ?thesis
    unfolding g using oy ox ly lx by simp linarith
qed

lemma find_regions_length: "length (find_regions m dp) \<le> 1"
  by (simp add: find_regions_def Let_def)

lemma find_regions_noise: "dp \<le> 1 / 2 \<Longrightarrow> find_regions m dp = []"
  by (simp add: find_regions_def)

lemma mask_rectangular:
  assumes "wf_image a" "wf_image b" "isize a = isize b"
  shows "rectangular (diff_mask (np_abs_diff (np_array a) (np_array b)))
           (snd (isize a)) (fst (isize a))"
proof -
  let ?m = "diff_mask (np_abs_diff (np_array a) (np_array b))"
  have la: "length (pixels a) = snd (isize a)" and lb: "length (pixels b) = snd (isize a)"
    using assms by (simp_all add: wf_image_def)
  have len: "length ?m = snd (isize a)"
    by (simp add: diff_mask_def np_abs_diff_def np_array_def la lb)
  have "\<forall>i < length ?m. length (?m ! i) = fst (isize a)"
  proof (intro allI impI)
    fix i assume "i < length ?m"
    then have i: "i < snd (isize a)" using len by simp
    have ra: "length (pixels a ! i) = fst (isize a)"
      using assms(1) i la by (simp add: wf_image_def list_all_length)
    have rb: "length (pixels b ! i) = fst (isize a)"
      using assms(2,3) i lb by (simp add: wf_image_def list_all_length)
    show "length (?m ! i) = fst (isize a)"
      using i la lb ra rb by (simp add: diff_mask_def np_abs_diff_def np_array_def)
  qed
  with len show ?thesis by (simp add: rectangular_def list_all_length)
qed


lemma percent_pos_differing:
  assumes "0 < percent m"
  shows "\<exists>i j. differing m i j"
proof -
  have "mask_sum m \<noteq> 0"
  proof
    assume "mask_sum m = 0"
    then have "percent m = 0" by (simp add: percent_def)
    with assms show False by simp
  qed
  then have "filter (\<lambda>b. b) (concat m) \<noteq> []" by (simp add: mask_sum_def)
  then obtain row where row: "row \<in> set m" "True \<in> set row"
    by (auto simp: filter_empty_conv)
  from row(1) obtain i where i: "i < length m" "m ! i = row" by (metis in_set_conv_nth)
  from row(2) obtain j where j: "j < length row" "row ! j" by (metis in_set_conv_nth)
  from i j have "differing m i j" by (simp add: differing_def)
  then show ?thesis by blast
qed

lemma finite_differing:
  assumes "rectangular m h w"
  shows "finite (differing_rows m) \<and> finite (differing_cols m)"
proof -
  have "differing_rows m \<subseteq> {..<h}" "differing_cols m \<subseteq> {..<w}"
    using assms rectangular_nth [OF assms]
    by (auto simp: differing_rows_def differing_cols_def differing_def rectangular_def)
  then show ?thesis by (meson finite_lessThan finite_subset)
qed

lemma find_regions_cover:
  assumes "rectangular m h w" "g \<in> set (find_regions m dp)" "differing m i j"
  shows "y_start g \<le> int i \<and> int i < y_end g \<and> x_start g \<le> int j \<and> int j < x_end g"
proof -
  from assms(2) have dp: "1 / 2 < dp"
    by (auto simp: find_regions_def Let_def split: if_splits)
  note box = find_regions_box [OF assms(1) dp assms(3)]
  note fin = finite_differing [OF assms(1)]
  have i: "i \<in> differing_rows m" and j: "j \<in> differing_cols m"
    using assms(3) by (auto simp: differing_rows_def differing_cols_def)
  have "Min (differing_rows m) \<le> i" "i \<le> Max (differing_rows m)"
       "Min (differing_cols m) \<le> j" "j \<le> Max (differing_cols m)"
    using fin i j by simp_all
  then show ?thesis using assms(2) unfolding box by auto
qed


section \<open>The examples, evaluated\<close>

lemma pixel_diff_dot: "pixel_diff env_both logo_unity logo_figma = Inr (Stats dot_result, dot_writes)"
  by code_simp

lemma open_dot: "open_rgba env_both logo_unity = Inr img_dot"
  by code_simp

lemma open_plain: "open_rgba env_both logo_figma = Inr img_plain"
  by code_simp

lemma normalize_dot: "normalize_pair (lanczos env_both) img_dot img_plain = (img_dot, img_plain)"
  by code_simp

lemma wf_dot: "wf_image img_dot"
  by code_simp

lemma wf_plain: "wf_image img_plain"
  by code_simp

lemma dot_percent: "1 / 2 < percent dot_mask"
  by code_simp

lemma dot_differing: "differing dot_mask 1 1"
  by code_simp

lemma libs_both: "libs_installed env_both"
  by code_simp


lemma report_of_SomeD: "report_of res = Some rep \<Longrightarrow> \<exists>ws. res = Inr (rep, ws)"
  by (auto simp: report_of_def split: sum.splits)

lemma report_both: "report_of (compare_screens env_both (Some [''LogoScreen''])) = Some dot_report"
  by code_simp

lemma report_empty: "report_of (compare_screens env_empty None) = Some empty_report"
  by code_simp

lemma unity_missing_empty: "files env_empty (path_join UNITY_DIR (''LogoScreen'' @ ''.png'')) = None"
  by (simp add: env_empty_def)

lemma figma_missing_empty: "files env_empty (path_join FIGMA_DIR (''LogoScreen'' @ ''.png'')) = None"
  by (simp add: env_empty_def)


lemma logo_selected: "''LogoScreen'' \<in> set (select_targets None)"
  by (simp add: select_targets_def SCREEN_MAP_def)

section \<open>Image normalisation\<close>

text \<open>
  C1. Two images of different sizes should both be resized to the greater width and the
  greater height, so images of 100 by 200 and 300 by 100 to 300 by 200. The code takes
  Python's \<open>max\<close> of the two size tuples, which compares the widths first: both images
  are resized to 300 by 100, and the image of 200 rows is shrunk. The same rule scales an
  image of 100 by 1000 down to 101 by 1.
\<close>

theorem normalize_takes_tuple_max:
  "isize (fst (normalize_pair fill_resampler img_100x200 img_300x100)) = (300, 100) \<and>
   isize (snd (normalize_pair fill_resampler img_100x200 img_300x100)) = (300, 100) \<and>
   (300, 100) \<noteq> (max 100 300, max 200 (100::nat)) \<and>
   tuple_max (100, 1000) (101, 1) = (101, 1)"
  by (simp add: normalize_pair_def resize_def tuple_max_def img_100x200_def img_300x100_def Let_def)

section \<open>Classification\<close>

text \<open>
  C3 (as amended). The glyph of a score and the three buckets of the summary use the same
  bands: above 95 is passing, above 80 and up to 95 is warning, 80 or below is failing. A
  score of exactly 95 is a warning and a score of exactly 80 is failing. Each bucket of
  the summary counts the records whose score has the glyph of that bucket.
\<close>

theorem classification_bands:
  "emoji 95 = YellowCircle \<and> emoji 80 = RedCircle \<and>
   (emoji s = CheckMark \<longleftrightarrow> 95 < s) \<and>
   (emoji s = YellowCircle \<longleftrightarrow> 80 < s \<and> s \<le> 95) \<and>
   (emoji s = RedCircle \<longleftrightarrow> s \<le> 80) \<and>
   passing (summarize results) =
     length (filter (\<lambda>r. emoji (get_match_score r) = CheckMark) (map snd results)) \<and>
   warning (summarize results) =
     length (filter (\<lambda>r. emoji (get_match_score r) = YellowCircle) (map snd results)) \<and>
   failing (summarize results) =
     length (filter (\<lambda>r. emoji (get_match_score r) = RedCircle) (map snd results))"
proof -
  have p: "(\<lambda>r. emoji (get_match_score r) = CheckMark) = (\<lambda>r. 95 < get_match_score r)"
    by (auto simp: emoji_def fun_eq_iff)
  have w: "(\<lambda>r. emoji (get_match_score r) = YellowCircle) =
           (\<lambda>r. 80 < get_match_score r \<and> get_match_score r \<le> 95)"
    by (auto simp: emoji_def fun_eq_iff)
  have f: "(\<lambda>r. emoji (get_match_score r) = RedCircle) = (\<lambda>r. get_match_score r \<le> 80)"
    by (auto simp: emoji_def fun_eq_iff)
  show ?thesis
    unfolding p w f by (auto simp: emoji_def summarize_def)
qed

theorem classification_bands_witness:
  "emoji (8333 / 100) = YellowCircle \<and>
   warning (summarize [(''LogoScreen'', Status ''missing_figma'')]) = 0 \<and>
   failing (summarize [(''LogoScreen'', Status ''missing_figma'')]) = 1"
  using classification_bands [of "8333 / 100" "[(''LogoScreen'', Status ''missing_figma'')]"]
  by (simp add: emoji_def)

text \<open>One pixel in twenty differs: the match score is exactly 95, and the screen is
  counted as a warning, not as passing.\<close>

theorem score_95_counterexample:
  "report_of (compare_screens env_strip (Some [''LogoScreen''])) =
     Some \<lparr>timestamp = ''2026-01-01T09:00:00'',
           screens =
             [(''LogoScreen'',
               Compared
                \<lparr>diff = Stats \<lparr>mean_diff = 51 / 4, max_diff = 255, diff_percent = 5,
                     diff_image = ''QA/Reports/diff_LogoScreen.png'',
                     resolution = [20, 1],
                     regions = [\<lparr>y_start = 0, y_end = 1, x_start = 0, x_end = 1, area_percent = 5\<rparr>],
                     match_score = 95\<rparr>,
                 unity_path = ''QA/Screenshots/Unity/LogoScreen.png'',
                 figma_path = ''QA/Screenshots/Figma/LogoScreen.png'',
                 unity_hash = ''0123456789ab'',
                 figma_hash = ''0123456789ab''\<rparr>)],
           summary = \<lparr>total_n = 1, passing = 0, warning = 1, failing = 0, missing = 0\<rparr>\<rparr>"
  by code_simp

section \<open>Screens without a source image\<close>

text \<open>
  C2. A screen with a status should be counted as missing and in no other bucket. The
  summary counts it as failing too: its record has no \<open>match_score\<close>, so the default 0
  of \<open>r.get("match_score", 0)\<close> falls into the band of 80 or below. Here the run on a
  world where only the Figma export of \<open>LogoScreen\<close> exists.
\<close>

theorem missing_counted_failing:
  "report_of (compare_screens env_figma_only (Some [''LogoScreen''])) =
     Some \<lparr>timestamp = ''2026-01-01T09:00:00'',
           screens = [(''LogoScreen'', Status ''missing_unity'')],
           summary = \<lparr>total_n = 1, passing = 0, warning = 0, failing = 1, missing = 1\<rparr>\<rparr>"
  by code_simp


section \<open>Regions\<close>

text \<open>
  C4. Let \<open>m\<close> be the mask of a comparison and \<open>percent m\<close> the percentage of its
  entries that are true, the \<open>diff_percent\<close> that \<open>pixel_diff\<close> tests before it is
  rounded. If it is at most 0.5 there is no region. If it is above 0.5 some pixel differs,
  and there is exactly one region: it starts at the first differing row and column and
  ends one past the last differing row and column (the ends are exclusive), so it covers
  the rows from the first to the last differing row and the columns from the first to the
  last differing column, and every differing pixel lies inside it. There is never more
  than one region.
\<close>

theorem region_detection:
  assumes "pixel_diff e p1 p2 = Inr (Stats r, ws)"
    and "open_rgba e p1 = Inr img1" and "open_rgba e p2 = Inr img2"
    and "normalize_pair (lanczos e) img1 img2 = (a, b)"
    and "wf_image a" and "wf_image b"
    and "m = diff_mask (np_abs_diff (np_array a) (np_array b))"
  shows "(percent m \<le> 1 / 2 \<longrightarrow> regions r = []) \<and>
         (1 / 2 < percent m \<longrightarrow> (\<exists>i j. differing m i j)) \<and>
         (1 / 2 < percent m \<and> (\<exists>i j. differing m i j) \<longrightarrow>
            regions r =
              [\<lparr>y_start = int (Min (differing_rows m)),
                y_end = int (Max (differing_rows m)) + 1,
                x_start = int (Min (differing_cols m)),
                x_end = int (Max (differing_cols m)) + 1,
                area_percent = round2 (percent m)\<rparr>]) \<and>
         (\<forall>g i j. g \<in> set (regions r) \<and> differing m i j \<longrightarrow>
            y_start g \<le> int i \<and> int i < y_end g \<and> x_start g \<le> int j \<and> int j < x_end g) \<and>
         length (regions r) \<le> 1"
proof -
  from pixel_diff_StatsD [OF assms(1)] assms(2,3,4)
  have ds: "diff_stats p1 a b = Inr (r, ws)" by auto
  have reg: "regions r = find_regions m (percent m)"
    using diff_stats_InrD [OF ds] assms(7) by simp
  have same: "isize a = isize b" by (rule normalize_pair_same_size [OF assms(4)])
  have rect: "rectangular m (snd (isize a)) (fst (isize a))"
    unfolding assms(7) by (rule mask_rectangular [OF assms(5,6) same])
  have pos: "1 / 2 < percent m \<longrightarrow> (\<exists>i j. differing m i j)"
    using percent_pos_differing [of m] by auto
  show ?thesis
    unfolding reg
    using find_regions_noise [of "percent m" m] find_regions_box [OF rect]
      find_regions_cover [OF rect] find_regions_length [of m "percent m"] pos
    by blast
qed

theorem region_detection_witness:
  "pixel_diff env_both logo_unity logo_figma = Inr (Stats dot_result, dot_writes) \<and>
   wf_image img_dot \<and> wf_image img_plain \<and>
   1 / 2 < percent dot_mask \<and> differing dot_mask 1 1 \<and>
   regions dot_result =
     [\<lparr>y_start = int (Min (differing_rows dot_mask)),
       y_end = int (Max (differing_rows dot_mask)) + 1,
       x_start = int (Min (differing_cols dot_mask)),
       x_end = int (Max (differing_cols dot_mask)) + 1,
       area_percent = round2 (percent dot_mask)\<rparr>] \<and>
   length (regions dot_result) \<le> 1"
  using region_detection [OF pixel_diff_dot open_dot open_plain normalize_dot wf_dot wf_plain dot_mask_def]
    pixel_diff_dot wf_dot wf_plain dot_percent dot_differing
  by blast

text \<open>
  C8. A region of a comparison at resolution \<open>W\<close> by \<open>H\<close>, whose mask has \<open>H\<close>
  rows of \<open>W\<close> entries, satisfies \<open>0 \<le> y_start < y_end \<le> H\<close> and
  \<open>0 \<le> x_start < x_end \<le> W\<close>, and its \<open>area_percent\<close> is the rounded
  \<open>diff_percent\<close> of the result.
\<close>

theorem region_bounds:
  assumes "pixel_diff e p1 p2 = Inr (Stats r, ws)"
    and "open_rgba e p1 = Inr img1" and "open_rgba e p2 = Inr img2"
    and "normalize_pair (lanczos e) img1 img2 = (a, b)"
    and "wf_image a" and "wf_image b"
    and "g \<in> set (regions r)"
  shows "resolution r = [fst (isize a), snd (isize a)] \<and>
         rectangular (diff_mask (np_abs_diff (np_array a) (np_array b)))
           (snd (isize a)) (fst (isize a)) \<and>
         0 \<le> y_start g \<and> y_start g < y_end g \<and> y_end g \<le> int (snd (isize a)) \<and>
         0 \<le> x_start g \<and> x_start g < x_end g \<and> x_end g \<le> int (fst (isize a)) \<and>
         area_percent g = diff_percent r"
proof -
  let ?m = "diff_mask (np_abs_diff (np_array a) (np_array b))"
  from pixel_diff_StatsD [OF assms(1)] assms(2,3,4)
  have ds: "diff_stats p1 a b = Inr (r, ws)" by auto
  note d = diff_stats_InrD [OF ds]
  have same: "isize a = isize b" by (rule normalize_pair_same_size [OF assms(4)])
  have rect: "rectangular ?m (snd (isize a)) (fst (isize a))"
    by (rule mask_rectangular [OF assms(5,6) same])
  have g: "g \<in> set (find_regions ?m (percent ?m))" using assms(7) d by simp
  show ?thesis
    using find_regions_bounds [OF rect g] rect d by simp
qed

theorem region_bounds_witness:
  "pixel_diff env_both logo_unity logo_figma = Inr (Stats dot_result, dot_writes) \<and>
   wf_image img_dot \<and> wf_image img_plain \<and>
   dot_region \<in> set (regions dot_result) \<and>
   resolution dot_result = [3, 2] \<and>
   y_start dot_region < y_end dot_region \<and> y_end dot_region \<le> 2 \<and>
   x_start dot_region < x_end dot_region \<and> x_end dot_region \<le> 3 \<and>
   area_percent dot_region = diff_percent dot_result"
proof -
  have g: "dot_region \<in> set (regions dot_result)" by (simp add: dot_result_def)
  have s: "isize img_dot = (3, 2)" by (simp add: img_dot_def)
  from region_bounds [OF pixel_diff_dot open_dot open_plain normalize_dot wf_dot wf_plain g]
  show ?thesis using pixel_diff_dot wf_dot wf_plain g s by simp
qed

section \<open>Scores\<close>

text \<open>The mask of a comparison that returns statistics has entries.\<close>

lemma compared_mask_nonempty:
  assumes "pixel_diff e p1 p2 = Inr (Stats r, ws)"
  shows "\<exists>a b. diff_stats p1 a b = Inr (r, ws) \<and>
           mask_size (diff_mask (np_abs_diff (np_array a) (np_array b))) \<noteq> 0"
proof -
  from pixel_diff_StatsD [OF assms] obtain a b where ds: "diff_stats p1 a b = Inr (r, ws)"
    by blast
  let ?d = "np_abs_diff (np_array a) (np_array b)"
  have "flatten ?d \<noteq> []" using diff_stats_InrD [OF ds] by simp
  then have "concat (concat ?d) \<noteq> []" unfolding flatten_def .
  then have ne: "concat ?d \<noteq> []" by (metis concat.simps(1))
  have "mask_size (diff_mask ?d) = length (concat ?d)"
    by (simp add: mask_size_def diff_mask_def length_concat o_def)
  with ne have "mask_size (diff_mask ?d) \<noteq> 0" by simp
  with ds show ?thesis by blast
qed

lemma percent_f64_near:
  assumes "mask_size m \<noteq> 0"
  defines "q \<equiv> (of_nat (mask_sum m) :: rat) / of_nat (mask_size m)"
  shows "\<bar>percent_f64 m - 100 * q\<bar> \<le> 201 / 9007199254740992 \<and> 0 \<le> q \<and> q \<le> 1"
proof -
  have le: "(of_nat (mask_sum m) :: rat) \<le> of_nat (mask_size m)"
    using mask_sum_le_size [of m] by (simp only: of_nat_le_iff)
  have pos: "(0::rat) < of_nat (mask_size m)" using assms(1) by simp
  have q0: "0 \<le> q" by (simp add: q_def)
  have q1: "q \<le> 1" using le pos by (simp add: q_def divide_le_eq_1)
  define a where "a = fl q"
  have "\<bar>q\<bar> \<le> 1" using q0 q1 by simp
  from fl_bound [OF this] have a: "\<bar>a - q\<bar> \<le> 1 / 9007199254740992" by (simp add: a_def)
  have "\<bar>a * 100\<bar> \<le> 101"
    using abs_boundsD [OF a] q0 q1 by (intro abs_boundsI) linarith+
  from fl_bound [OF this] have p: "\<bar>fl (a * 100) - a * 100\<bar> \<le> 101 / 9007199254740992" .
  have pf: "percent_f64 m = fl (a * 100)"
    by (simp add: percent_f64_def f64_mul_def f64_div_def a_def q_def)
  have "\<bar>percent_f64 m - 100 * q\<bar> \<le> 201 / 9007199254740992"
    unfolding pf using abs_boundsD [OF a] abs_boundsD [OF p] by (intro abs_boundsI) linarith+
  with q0 q1 show ?thesis by simp
qed

lemma ex_quotient: "f64_div 11 4000 = (3170534137668829 / 1152921504606846976)"
  unfolding f64_div_def by (rule fl_eqI [where e = "-9" and c = "6341068275337658"]) simp_all

lemma ex_percent: "f64_mul (3170534137668829 / 1152921504606846976) 100 = (4953959590107545 / 18014398509481984)"
  unfolding f64_mul_def by (rule fl_eqI [where e = "-2" and c = "4953959590107545"]) simp_all

lemma ex_dp_scaled: "f64_mul (4953959590107545 / 18014398509481984) 100 = (7740561859543039 / 281474976710656)"
  unfolding f64_mul_def by (rule fl_eqI [where e = "4" and c = "7740561859543039"]) simp_all

lemma ex_dp_rint: "rint (7740561859543039 / 281474976710656) = 27"
  by (rule rint_eqI) simp_all

lemma ex_dp_rounded: "f64_div 27 100 = (607985949695017 / 2251799813685248)"
  unfolding f64_div_def by (rule fl_eqI [where e = "-2" and c = "4863887597560136"]) simp_all

lemma ex_score: "f64_sub 100 (4953959590107545 / 18014398509481984) = (3508761506558771 / 35184372088832)"
  unfolding f64_sub_def by (rule fl_eqI [where e = "6" and c = "7017523013117542"]) simp_all

lemma ex_ms_scaled: "f64_mul (3508761506558771 / 35184372088832) 100 = (19945 / 2)"
  unfolding f64_mul_def by (rule fl_eqI [where e = "13" and c = "5482439853998080"]) simp_all

lemma ex_ms_rint: "rint (19945 / 2) = 9972"
  by (rule rint_tie_even) simp_all

lemma ex_ms_rounded: "f64_div 9972 100 = (3508585584698327 / 35184372088832)"
  unfolding f64_div_def by (rule fl_eqI [where e = "6" and c = "7017171169396654"]) simp_all

lemma ex_sum: "f64_add (3508585584698327 / 35184372088832) (607985949695017 / 2251799813685248) = (7036170730324623 / 70368744177664)"
  unfolding f64_add_def by (rule fl_eqI [where e = "6" and c = "7036170730324623"]) simp_all

lemma ex_diff: "f64_sub (7036170730324623 / 70368744177664) 100 = (- 703687441777 / 70368744177664)"
  unfolding f64_sub_def by (rule fl_eqI [where e = "-7" and c = "-5764607523037184"]) simp_all

lemma ex_tol: "fl (1 / 100) = (5764607523034235 / 576460752303423488)"
  by (rule fl_eqI [where e = "-7" and c = "5764607523034235"]) simp_all

lemma sum_11: "mask_sum mask_11_of_4000 = 11"
  by (simp add: mask_sum_def mask_11_of_4000_def)

lemma size_11: "mask_size mask_11_of_4000 = 4000"
  by (simp add: mask_size_def mask_11_of_4000_def)

lemma ex_percent_f64: "percent_f64 mask_11_of_4000 = (4953959590107545 / 18014398509481984)"
  by (simp add: percent_f64_def sum_11 size_11 ex_quotient ex_percent)

lemma ex_diff_percent: "diff_percent_f64 mask_11_of_4000 = (607985949695017 / 2251799813685248)"
  by (simp add: diff_percent_f64_def np_round2_def ex_percent_f64 ex_dp_scaled ex_dp_rint ex_dp_rounded)

lemma ex_match_score: "match_score_f64 mask_11_of_4000 = (3508585584698327 / 35184372088832)"
  by (simp add: match_score_f64_def np_round2_def ex_percent_f64 ex_score ex_ms_scaled ex_ms_rint ex_ms_rounded)

text \<open>
  C5 (as amended). For the mask of every comparison, the two reported percentages of
  lines 214 and 218, computed in \<open>float64\<close>, add up to 100 within 0.01 and a rounding
  error of at most \<open>2 ^ -45\<close>. They are rounded one by one, so the sum can miss 100 by
  a hundredth, and then the bare tolerance of 0.01 can fail by the rounding error.
\<close>

theorem score_complement_f64:
  assumes "mask_size m \<noteq> 0" and "mask_size m < 2 ^ 53"
  shows "\<bar>match_score_f64 m + diff_percent_f64 m - 100\<bar> \<le> 1 / 100 + 1 / 2 ^ 45"
proof -
  define q where "q = (of_nat (mask_sum m) :: rat) / of_nat (mask_size m)"
  define p where "p = percent_f64 m"
  define t where "t = 100 - p"
  define s where "s = fl t"
  note n = percent_f64_near [OF assms(1), folded q_def p_def]
  have pq: "\<bar>p - 100 * q\<bar> \<le> 201 / 9007199254740992" and q0: "0 \<le> q" and q1: "q \<le> 1"
    using n by simp_all
  have pb: "\<bar>p\<bar> \<le> 102"
    using abs_boundsD [OF pq] q0 q1 by (intro abs_boundsI) linarith+
  have tb: "\<bar>t\<bar> \<le> 101"
    unfolding t_def using abs_boundsD [OF pq] q0 q1 by (intro abs_boundsI) linarith+
  from fl_bound [OF tb] have st: "\<bar>s - t\<bar> \<le> 101 / 9007199254740992" by (simp add: s_def)
  have sb: "\<bar>s\<bar> \<le> 102"
    using abs_boundsD [OF st] abs_boundsD [OF tb] by (intro abs_boundsI) linarith+
  from np_round2_near [OF pb] obtain a :: int where
    a: "\<bar>of_int a - 100 * p\<bar> \<le> 1 / 2 + 10200 / 9007199254740992"
       "\<bar>np_round2 p - of_int a / 100\<bar> \<le> 103 / 9007199254740992"
    by blast
  from np_round2_near [OF sb] obtain b :: int where
    b: "\<bar>of_int b - 100 * s\<bar> \<le> 1 / 2 + 10200 / 9007199254740992"
       "\<bar>np_round2 s - of_int b / 100\<bar> \<le> 103 / 9007199254740992"
    by blast
  have "\<bar>(of_int a :: rat) + of_int b - 10000\<bar> \<le> 3 / 2"
    using abs_boundsD [OF a(1)] abs_boundsD [OF b(1)] abs_boundsD [OF st] unfolding t_def
    by (intro abs_boundsI) linarith+
  then have "\<bar>(of_int (a + b - 10000) :: rat)\<bar> < 2" by simp
  then have "\<bar>a + b - 10000\<bar> < 2"
    by (metis of_int_abs of_int_less_iff of_int_numeral)
  then have ab: "\<bar>a + b - 10000\<bar> \<le> 1" by simp
  then have "\<bar>(of_int (a + b - 10000) :: rat)\<bar> \<le> 1"
    by (metis of_int_abs of_int_le_iff of_int_1)
  then have "\<bar>(of_int a :: rat) + of_int b - 10000\<bar> \<le> 1" by simp
  then have abr: "\<bar>(of_int a :: rat) / 100 + of_int b / 100 - 100\<bar> \<le> 1 / 100"
    using abs_boundsD [of "of_int a + of_int b - 10000" 1] by (intro abs_boundsI) linarith+
  have D: "diff_percent_f64 m = np_round2 p" by (simp add: diff_percent_f64_def p_def)
  have S: "match_score_f64 m = np_round2 s"
    by (simp add: match_score_f64_def f64_sub_def s_def t_def p_def)
  have "\<bar>np_round2 s + np_round2 p - 100\<bar> \<le> 1 / 100 + 206 / 9007199254740992"
    using abs_boundsD [OF a(2)] abs_boundsD [OF b(2)] abs_boundsD [OF abr]
    by (intro abs_boundsI) linarith+
  then show ?thesis unfolding D S by simp
qed

theorem score_complement_f64_witness:
  "mask_size mask_11_of_4000 \<noteq> 0 \<and> mask_size mask_11_of_4000 < 2 ^ 53 \<and>
   \<bar>match_score_f64 mask_11_of_4000 + diff_percent_f64 mask_11_of_4000 - 100\<bar> \<le> 1 / 100 + 1 / 2 ^ 45"
proof -
  have a: "mask_size mask_11_of_4000 \<noteq> 0" by (simp add: size_11)
  have b: "mask_size mask_11_of_4000 < 2 ^ 53" by (simp add: size_11)
  from score_complement_f64 [OF a b] a b show ?thesis by blast
qed

text \<open>When 11 pixels of 4000 differ the code reports 0.27 and 99.72, as the
  \<open>float64\<close> values nearest to them. Their sum misses 100 by more than 0.01, in exact
  arithmetic and also when the sum, the difference and 0.01 are taken in \<open>float64\<close>.\<close>

theorem complement_tolerance_counterexample:
  "diff_percent_f64 mask_11_of_4000 = fl (27 / 100) \<and>
   match_score_f64 mask_11_of_4000 = fl (9972 / 100) \<and>
   diff_percent_f64 mask_11_of_4000 = 607985949695017 / 2251799813685248 \<and>
   match_score_f64 mask_11_of_4000 = 3508585584698327 / 35184372088832 \<and>
   1 / 100 < \<bar>match_score_f64 mask_11_of_4000 + diff_percent_f64 mask_11_of_4000 - 100\<bar> \<and>
   fl (1 / 100) <
     \<bar>f64_sub (f64_add (match_score_f64 mask_11_of_4000) (diff_percent_f64 mask_11_of_4000)) 100\<bar>"
proof -
  have d: "diff_percent_f64 mask_11_of_4000 = fl (27 / 100)"
    using ex_diff_percent ex_dp_rounded by (simp only: f64_div_def)
  have s: "match_score_f64 mask_11_of_4000 = fl (9972 / 100)"
    using ex_match_score ex_ms_rounded by (simp only: f64_div_def)
  have t: "1 / 100 < \<bar>match_score_f64 mask_11_of_4000 + diff_percent_f64 mask_11_of_4000 - 100\<bar>"
    by (simp add: ex_diff_percent ex_match_score)
  have f: "fl (1 / 100) <
     \<bar>f64_sub (f64_add (match_score_f64 mask_11_of_4000) (diff_percent_f64 mask_11_of_4000)) 100\<bar>"
    by (simp add: ex_diff_percent ex_match_score ex_sum ex_diff ex_tol)
  from d s t f ex_diff_percent ex_match_score show ?thesis by blast
qed

text \<open>
  C9. In every result of a comparison, \<open>diff_percent\<close> and \<open>match_score\<close> lie
  between 0 and 100.
\<close>

theorem score_range:
  assumes "pixel_diff e p1 p2 = Inr (Stats r, ws)"
  shows "0 \<le> diff_percent r \<and> diff_percent r \<le> 100 \<and>
         0 \<le> match_score r \<and> match_score r \<le> 100"
proof -
  from pixel_diff_StatsD [OF assms] obtain a b where ds: "diff_stats p1 a b = Inr (r, ws)"
    by blast
  note d = diff_stats_InrD [OF ds]
  let ?p = "percent (diff_mask (np_abs_diff (np_array a) (np_array b)))"
  have p: "0 \<le> ?p \<and> ?p \<le> 100" by (rule percent_bounds)
  then have q: "0 \<le> 100 - ?p \<and> 100 - ?p \<le> 100" by simp
  show ?thesis
    using d round2_bounds [of ?p] round2_bounds [of "100 - ?p"] p q by simp
qed

theorem score_range_witness:
  "pixel_diff env_both logo_unity logo_figma = Inr (Stats dot_result, dot_writes) \<and>
   0 \<le> diff_percent dot_result \<and> diff_percent dot_result \<le> 100 \<and>
   0 \<le> match_score dot_result \<and> match_score dot_result \<le> 100"
  using score_range [OF pixel_diff_dot] pixel_diff_dot by simp

text \<open>
  C6. Two files that decode to the same image compare with \<open>diff_percent\<close>,
  \<open>mean_diff\<close> and \<open>max_diff\<close> all 0, \<open>match_score\<close> 100 and no region.
\<close>

theorem identical_images:
  assumes "libs_installed e"
    and "open_rgba e p1 = Inr img" and "open_rgba e p2 = Inr img"
    and "wf_image img"
  shows "\<exists>r ws. pixel_diff e p1 p2 = Inr (Stats r, ws) \<and>
           diff_percent r = 0 \<and> mean_diff r = 0 \<and> max_diff r = 0 \<and>
           match_score r = 100 \<and> regions r = []"
proof -
  from identical_core [OF assms(4), of p1] obtain r ws where
    r: "diff_stats p1 img img = Inr (r, ws)" "diff_percent r = 0" "mean_diff r = 0"
       "max_diff r = 0" "match_score r = 100" "regions r = []"
    by blast
  have "pixel_diff e p1 p2 = Inr (Stats r, ws)"
    using assms(1,2,3) r(1) by (simp add: pixel_diff_def normalize_pair_def)
  with r show ?thesis by blast
qed

theorem identical_images_witness:
  "libs_installed env_both \<and> open_rgba env_both logo_unity = Inr img_dot \<and> wf_image img_dot \<and>
   (\<exists>r ws. pixel_diff env_both logo_unity logo_unity = Inr (Stats r, ws) \<and>
      diff_percent r = 0 \<and> mean_diff r = 0 \<and> max_diff r = 0 \<and>
      match_score r = 100 \<and> regions r = [])"
  using identical_images [OF libs_both open_dot open_dot wf_dot] libs_both open_dot wf_dot
  by blast

section \<open>The order of the checks for missing images\<close>

lemma compare_one_missing_unity:
  "files e (path_join UNITY_DIR (n @ ''.png'')) = None \<Longrightarrow>
   compare_one e n = Inr (Status ''missing_unity'', [])"
  by (simp add: compare_one_def Let_def)

lemma run_targets_missing_unity:
  assumes "files e (path_join UNITY_DIR (n @ ''.png'')) = None"
  shows "run_targets e ns results ws = Inr (results', ws') \<Longrightarrow>
         n \<in> set ns \<or> map_of results n = Some (Status ''missing_unity'') \<Longrightarrow>
         map_of results' n = Some (Status ''missing_unity'')"
proof (induction ns arbitrary: results ws)
  case Nil
  then show ?case by simp
next
  case (Cons k ks)
  from Cons.prems(1) obtain r w where
    one: "compare_one e k = Inr (r, w)" and
    rest: "run_targets e ks (AList.update k r results) (ws @ w) = Inr (results', ws')"
    by (auto split: sum.splits)
  have "n \<in> set ks \<or> map_of (AList.update k r results) n = Some (Status ''missing_unity'')"
  proof (cases "n = k")
    case True
    with one compare_one_missing_unity [OF assms] have "r = Status ''missing_unity''" by simp
    with True show ?thesis by (simp add: update_conv')
  next
    case False
    with Cons.prems(2) show ?thesis by (auto simp: update_conv')
  qed
  with Cons.IH [OF rest] show ?case .
qed


text \<open>
  C10. The Unity screenshot is looked for first: a target whose Unity screenshot is absent
  is recorded as \<open>missing_unity\<close>, whether its Figma export exists or not, so also when
  both are absent. Nothing is written for it and its record does not depend on the
  decoder: \<open>pixel_diff\<close> is not called.
\<close>

theorem missing_both_recorded_as_missing_unity:
  assumes "files e (path_join UNITY_DIR (n @ ''.png'')) = None"
    and "compare_screens e screens_arg = Inr (rep, ws)"
    and "n \<in> set (select_targets screens_arg)"
  shows "compare_one e n = Inr (Status ''missing_unity'', []) \<and>
         (\<forall>d. compare_one (e\<lparr>decode := d\<rparr>) n = Inr (Status ''missing_unity'', [])) \<and>
         map_of (screens rep) n = Some (Status ''missing_unity'')"
proof -
  from assms(2) obtain results ws0 where
    run: "run_targets e (select_targets screens_arg) [] [] = Inr (results, ws0)" and
    rep: "screens rep = results"
    by (auto simp: compare_screens_def Let_def split: sum.splits)
  have "map_of results n = Some (Status ''missing_unity'')"
    using run_targets_missing_unity [OF assms(1) run] assms(3) by simp
  moreover have "\<forall>d. compare_one (e\<lparr>decode := d\<rparr>) n = Inr (Status ''missing_unity'', [])"
    using assms(1) by (simp add: compare_one_def Let_def)
  ultimately show ?thesis
    using compare_one_missing_unity [OF assms(1)] rep by simp
qed

theorem missing_both_witness:
  "files env_empty (path_join UNITY_DIR (''LogoScreen'' @ ''.png'')) = None \<and>
   files env_empty (path_join FIGMA_DIR (''LogoScreen'' @ ''.png'')) = None \<and>
   ''LogoScreen'' \<in> set (select_targets None) \<and>
   report_of (compare_screens env_empty None) = Some empty_report \<and>
   compare_one env_empty ''LogoScreen'' = Inr (Status ''missing_unity'', []) \<and>
   map_of (screens empty_report) ''LogoScreen'' = Some (Status ''missing_unity'')"
proof -
  from report_of_SomeD [OF report_empty] obtain ws where
    run: "compare_screens env_empty None = Inr (empty_report, ws)"
    by blast
  from missing_both_recorded_as_missing_unity [OF unity_missing_empty run logo_selected]
  show ?thesis
    using unity_missing_empty figma_missing_empty logo_selected report_empty by blast
qed

section \<open>Running twice\<close>

lemma open_rgba_clock:
  "open_rgba (e\<lparr>now_isoformat := t, now_strftime := s\<rparr>) p = open_rgba e p"
  by (simp add: open_rgba_def split: option.splits)

lemma pixel_diff_clock:
  "pixel_diff (e\<lparr>now_isoformat := t, now_strftime := s\<rparr>) p1 p2 = pixel_diff e p1 p2"
  by (simp add: pixel_diff_def open_rgba_clock split: sum.splits prod.splits)

lemma compare_one_clock:
  "compare_one (e\<lparr>now_isoformat := t, now_strftime := s\<rparr>) n = compare_one e n"
  by (simp add: compare_one_def Let_def pixel_diff_clock split: option.splits sum.splits prod.splits)

lemma run_targets_clock:
  "run_targets (e\<lparr>now_isoformat := t, now_strftime := s\<rparr>) ns results ws =
   run_targets e ns results ws"
  by (induction ns arbitrary: results ws)
     (simp_all add: compare_one_clock split: sum.splits prod.splits)

lemma latest_paths_differ:
  "path_join REPORTS_DIR ''qa_report_latest.md'' \<noteq> path_join REPORTS_DIR ''qa_report_latest.json''"
  by (simp add: path_join_def REPORTS_DIR_def QA_DIR_def)


text \<open>
  C7 (as amended). A second run on the same files, at another reading of the clock, gives
  the same report up to its \<open>timestamp\<close>: the screens, with their fingerprints, and the
  summary are the same; the latest JSON differs in the \<open>timestamp\<close> field only and the
  latest markdown in its \<open>Generated\<close> line only.
\<close>

theorem rerun_differs_only_in_timestamp:
  assumes "compare_screens e screens_arg = Inr (rep, ws)"
    and "e' = e\<lparr>now_isoformat := t, now_strftime := s\<rparr>"
  shows "report_of (compare_screens e' screens_arg) = Some (rep\<lparr>timestamp := t\<rparr>) \<and>
         screens (rep\<lparr>timestamp := t\<rparr>) = screens rep \<and>
         summary (rep\<lparr>timestamp := t\<rparr>) = summary rep \<and>
         latest_json (compare_screens e screens_arg) = Some (JsonText rep) \<and>
         latest_json (compare_screens e' screens_arg) = Some (JsonText (rep\<lparr>timestamp := t\<rparr>)) \<and>
         latest_md (compare_screens e screens_arg) = Some (MarkdownText (generate_markdown_report rep)) \<and>
         latest_md (compare_screens e' screens_arg) =
           Some (MarkdownText ((generate_markdown_report rep)[1 := Generated t]))"
proof -
  from assms(1) obtain results ws0 where
    run: "run_targets e (select_targets screens_arg) [] [] = Inr (results, ws0)" and
    rep: "rep = \<lparr>timestamp = now_isoformat e, screens = results, summary = summarize results\<rparr>"
    by (auto simp: compare_screens_def Let_def split: sum.splits)
  have run': "run_targets e' (select_targets screens_arg) [] [] = Inr (results, ws0)"
    unfolding assms(2) run_targets_clock by (rule run)
  have t: "now_isoformat e' = t" by (simp add: assms(2))
  have r': "rep\<lparr>timestamp := t\<rparr> = \<lparr>timestamp = t, screens = results, summary = summarize results\<rparr>"
    by (simp add: rep)
  show ?thesis
    using latest_paths_differ
    by (simp add: compare_screens_def Let_def run run' t r' report_of_def latest_json_def
        latest_md_def written_def generate_markdown_report_def rep)
qed

theorem rerun_witness:
  "report_of (compare_screens env_both (Some [''LogoScreen''])) = Some dot_report \<and>
   env_later = env_both\<lparr>now_isoformat := ''2026-01-01T18:30:00'', now_strftime := ''20260101_183000''\<rparr> \<and>
   report_of (compare_screens env_later (Some [''LogoScreen''])) =
     Some (dot_report\<lparr>timestamp := ''2026-01-01T18:30:00''\<rparr>) \<and>
   latest_json (compare_screens env_later (Some [''LogoScreen''])) =
     Some (JsonText (dot_report\<lparr>timestamp := ''2026-01-01T18:30:00''\<rparr>)) \<and>
   latest_md (compare_screens env_later (Some [''LogoScreen''])) =
     Some (MarkdownText ((generate_markdown_report dot_report)[1 := Generated ''2026-01-01T18:30:00'']))"
proof -
  from report_of_SomeD [OF report_both] obtain ws where
    run: "compare_screens env_both (Some [''LogoScreen'']) = Inr (dot_report, ws)"
    by blast
  from rerun_differs_only_in_timestamp [OF run env_later_def]
  show ?thesis using report_both env_later_def by blast
qed

text \<open>On the same files, a run in the morning and a run in the evening leave different
  latest JSON and markdown outputs.\<close>

theorem rerun_counterexample:
  "files env_later = files env_both \<and> decode env_later = decode env_both \<and>
   lanczos env_later = lanczos env_both \<and> md5_hexdigest env_later = md5_hexdigest env_both \<and>
   libs_installed env_later = libs_installed env_both \<and>
   latest_json (compare_screens env_both (Some [''LogoScreen''])) \<noteq>
   latest_json (compare_screens env_later (Some [''LogoScreen''])) \<and>
   latest_md (compare_screens env_both (Some [''LogoScreen''])) \<noteq>
   latest_md (compare_screens env_later (Some [''LogoScreen'']))"
proof -
  have j: "latest_json (compare_screens env_both (Some [''LogoScreen''])) \<noteq>
           latest_json (compare_screens env_later (Some [''LogoScreen'']))"
    by code_simp
  have m: "latest_md (compare_screens env_both (Some [''LogoScreen''])) \<noteq>
           latest_md (compare_screens env_later (Some [''LogoScreen'']))"
    by code_simp
  show ?thesis using j m by (simp add: env_later_def)
qed

end
